theory Spec2Isabelle
  imports Main "HOL-Library.Word"
begin

section \<open>Values shared by the whole development\<close>

text \<open>
  A Go call either returns a value or panics.  A value of Go's \<open>error\<close> interface is
  \<open>None\<close> for \<open>nil\<close> and \<open>Some msg\<close> for an error carrying the message \<open>msg\<close>.
\<close>

datatype 'a result = Return 'a | Panic string

type_synonym error = "string option"

text \<open>Records written through the \<open>logger\<close>: message (or error text and message), key/value pairs.\<close>

datatype logrec = Info string "(string \<times> string) list" | Error string string

section \<open>func.go\<close>

text \<open>
  \<open>truncateText\<close>: Go strings are byte sequences, \<open>len\<close> counts bytes, and the slice
  expression \<open>s[:max]\<close> panics when \<open>max\<close> is negative (it cannot exceed \<open>len(s)\<close> on
  the second branch).
\<close>

definition truncateText :: "string \<Rightarrow> int \<Rightarrow> string result" where
  "truncateText s mx =
     (if mx \<ge> int (length s) then Return s
      else if mx < 0 then Panic ''slice bounds out of range''
      else Return (take (nat mx) s @ ''...''))"

section \<open>Go library functions used by task.go\<close>

subsection \<open>\<open>fmt.Sprintf("%d", id)\<close>\<close>

definition digit_char :: "nat \<Rightarrow> char" where
  "digit_char d = char_of (48 + d)"

fun digits :: "nat \<Rightarrow> string" where
  "digits n = (if n < 10 then [digit_char n] else digits (n div 10) @ [digit_char (n mod 10)])"

declare digits.simps [simp del]

definition itoa :: "int \<Rightarrow> string" where
  "itoa i = (if i < 0 then ''-'' @ digits (nat (- i)) else digits (nat i))"

subsection \<open>\<open>path/filepath\<close> on Unix\<close>

text \<open>
  \<open>filepath.Clean\<close> works element by element: empty elements and \<open>.\<close> are dropped, \<open>..\<close>
  removes the last real element of the output, is dropped at the root, and is kept at the
  front of a relative path.  \<open>split_path\<close> gives the elements between the separators,
  \<open>clean_elem\<close> is one round of the loop of \<open>Clean\<close> on the list of elements written so far.
\<close>

primrec split_path :: "string \<Rightarrow> string list" where
  "split_path [] = [[]]"
| "split_path (c # cs) =
     (if c = CHR ''/'' then [] # split_path cs
      else (case split_path cs of [] \<Rightarrow> [[c]] | e # es \<Rightarrow> (c # e) # es))"

fun join_sep :: "string \<Rightarrow> string list \<Rightarrow> string" where
  "join_sep sep [] = []"
| "join_sep sep [x] = x"
| "join_sep sep (x # y # ys) = x @ sep @ join_sep sep (y # ys)"

definition clean_elem :: "bool \<Rightarrow> string list \<Rightarrow> string \<Rightarrow> string list" where
  "clean_elem rooted out e =
     (if e = [] \<or> e = ''.'' then out
      else if e = ''..'' then
        (if out \<noteq> [] \<and> last out \<noteq> ''..'' then butlast out
         else if rooted then out
         else out @ [''..''])
      else out @ [e])"

definition Clean :: "string \<Rightarrow> string" where
  "Clean p =
     (if p = [] then ''.''
      else
        let rooted = (hd p = CHR ''/'');
            out = foldl (clean_elem rooted) [] (split_path p)
        in if rooted then ''/'' @ join_sep ''/'' out
           else if out = [] then ''.''
           else join_sep ''/'' out)"

text \<open>\<open>filepath.Join\<close>: leading empty elements are ignored, the rest is joined and cleaned.\<close>

definition Join :: "string list \<Rightarrow> string" where
  "Join elem =
     (case dropWhile (\<lambda>e. e = []) elem of
        [] \<Rightarrow> []
      | es \<Rightarrow> Clean (join_sep ''/'' es))"

text \<open>\<open>filepath.Dir\<close>: everything up to and including the last separator, cleaned.\<close>

definition Dir :: "string \<Rightarrow> string" where
  "Dir p = Clean (rev (dropWhile (\<lambda>c. c \<noteq> CHR ''/'') (rev p)))"

text \<open>\<open>filepath.Base\<close>: the last element, after trailing separators are stripped.\<close>

definition Base :: "string \<Rightarrow> string" where
  "Base p =
     (if p = [] then ''.''
      else
        let p1 = rev (dropWhile (\<lambda>c. c = CHR ''/'') (rev p));
            p2 = rev (takeWhile (\<lambda>c. c \<noteq> CHR ''/'') (rev p1))
        in if p2 = [] then ''/'' else p2)"

subsection \<open>\<open>context\<close> and \<open>time\<close>\<close>

text \<open>
  Time is counted in nanoseconds, as \<open>time.Duration\<close> does; a \<open>Duration\<close> is an
  \<open>int64\<close>.  A context is described by the moment it becomes done and the error it
  then reports; \<open>None\<close> is a context that is never done (\<open>context.Background()\<close>).
\<close>

datatype ctxErr = Canceled | DeadlineExceeded

type_synonym ctx = "(int \<times> ctxErr) option"

definition Millisecond :: "64 word" where
  "Millisecond = 1000000"

definition Second :: "64 word" where
  "Second = 1000000000"

definition Background :: ctx where
  "Background = None"

text \<open>
  \<open>context.WithTimeout(parent, d)\<close> called at time \<open>now\<close>: the child is done when the
  parent is, or at \<open>now + d\<close>, whichever comes first.
\<close>

definition WithTimeout :: "ctx \<Rightarrow> 64 word \<Rightarrow> int \<Rightarrow> ctx" where
  "WithTimeout parent d now =
     (case parent of
        None \<Rightarrow> Some (now + sint d, DeadlineExceeded)
      | Some (t, e) \<Rightarrow>
          if t \<le> now \<or> t < now + sint d then Some (t, e)
          else Some (now + sint d, DeadlineExceeded))"

text \<open>\<open>ctx.Err()\<close> at time \<open>now\<close>; \<open>ctx.Done()\<close> is closed exactly when it is not \<open>nil\<close>.\<close>

definition ctx_Err :: "ctx \<Rightarrow> int \<Rightarrow> ctxErr option" where
  "ctx_Err c now =
     (case c of
        None \<Rightarrow> None
      | Some (t, e) \<Rightarrow> if t \<le> now then Some e else None)"

subsection \<open>\<open>github.com/robfig/cron/v3\<close>\<close>

text \<open>
  The trigger table of the library.  An entry keeps the id, the schedule it was added
  with, the chain of wrappers around the job (\<open>cron.NewChain(ws...).Then(job)\<close>, the
  first wrapper outermost) and the job, a pointer.  \<open>Schedule\<close> increments \<open>next\<close> and
  gives the entry that id.  The parser is a parameter: \<open>parse spec = Some msg\<close> when
  it rejects \<open>spec\<close> with the error \<open>msg\<close>.
\<close>

type_synonym addr = nat

datatype JobWrapper = Recover | DelayIfStillRunning | SkipIfStillRunning

record entry =
  ID :: int
  Spec :: string
  Chain :: "JobWrapper list"
  Job :: addr

record cron =
  entries :: "entry list"
  next' :: int
  running :: bool

definition cron_New :: cron where
  "cron_New = \<lparr>entries = [], next' = 0, running = False\<rparr>"

definition cron_AddJob ::
  "(string \<Rightarrow> string option) \<Rightarrow> cron \<Rightarrow> string \<Rightarrow> JobWrapper list \<Rightarrow> addr \<Rightarrow> (string + int) \<times> cron" where
  "cron_AddJob parser c spec ws a =
     (case parser spec of
        Some err \<Rightarrow> (Inl err, c)
      | None \<Rightarrow>
          let n = next' c + 1
          in (Inr n, c\<lparr>next' := n, entries := entries c @ [\<lparr>ID = n, Spec = spec, Chain = ws, Job = a\<rparr>]\<rparr>))"

definition cron_Start :: "cron \<Rightarrow> cron" where
  "cron_Start c = c\<lparr>running := True\<rparr>"

text \<open>
  \<open>Cron.Stop\<close> stops the trigger loop and returns a context that is cancelled once the
  executions the library started have returned; \<open>idle\<close> is that moment, if it comes.
\<close>

definition cron_Stop :: "int option \<Rightarrow> int \<Rightarrow> cron \<Rightarrow> ctx \<times> cron" where
  "cron_Stop idle now c =
     (map_option (\<lambda>t. (max t now, Canceled)) idle, c\<lparr>running := False\<rparr>)"

text \<open>
  Modelled from the spec: section 4.1 (Overlap Guard) for what one trigger of a wrapped
  job does; the wrappers themselves are the library's.  \<open>busy\<close> says whether an earlier
  execution of the same entry is still in flight, \<open>body\<close> is what the job's own \<open>Run\<close>
  does when it is executed.  \<open>Recover\<close> captures a panic of what it wraps and reports it
  through the logger; \<open>SkipIfStillRunning\<close> discards the trigger when busy;
  \<open>DelayIfStillRunning\<close> holds the trigger until the earlier execution is over and runs
  it then.
\<close>

fun invoke :: "JobWrapper list \<Rightarrow> bool \<Rightarrow> unit result \<Rightarrow> unit result \<times> logrec list" where
  "invoke [] busy body = (body, [])"
| "invoke (Recover # ws) busy body =
     (case invoke ws busy body of
        (Panic m, l) \<Rightarrow> (Return (), l @ [Error m ''panic''])
      | (Return u, l) \<Rightarrow> (Return u, l))"
| "invoke (SkipIfStillRunning # ws) busy body =
     (if busy then (Return (), [Info ''skip'' []]) else invoke ws busy body)"
| "invoke (DelayIfStillRunning # ws) busy body = invoke ws busy body"

section \<open>task.go\<close>

subsection \<open>State\<close>

text \<open>
  The \<open>job\<close> struct is declared in job.go; these are the fields task.go reads and
  writes.  \<open>task\<close> and \<open>logger\<close> say whether the pointer has been set.  The current
  revision of task.go has one \<open>Command\<close> string per job and a shell file; the earlier
  revision (second half of the source file) has a \<open>Name\<close> and a list of \<open>Commands\<close>.
\<close>

record job_fields =
  Schedule :: string
  RunningMode :: string
  task :: bool
  logger :: bool
  id' :: int

record job = job_fields +
  Command :: string
  shellFile :: string

record job_prev = job_fields +
  Name :: string
  Commands :: "string list"

text \<open>
  What task.go takes from outside: the schedule parser of \<open>Cron\<close>, the outcome of
  \<open>job.makeLogger\<close> (job.go), \<open>os.TempDir()\<close>, whether a path can be written, the value
  \<open>atomic.LoadInt64(&t.runningCount)\<close> reads at a given time (the counter is written by
  the running jobs, concurrently), and the moment the library's own executions are over.
\<close>

record 'j env =
  parse :: "string \<Rightarrow> string option"
  makeLogger :: "'j \<Rightarrow> string option"
  TempDir :: string
  writable :: "string \<Rightarrow> bool"
  runningCount :: "int \<Rightarrow> int"
  cronIdle :: "int option"

text \<open>
  The \<open>Task\<close> struct, together with what its methods act on: the job objects the
  pointers in \<open>Jobs\<close> and in the trigger table refer to (\<open>heap\<close>), the log and the clock.
  \<open>wg\<close> is the counter of the \<open>sync.WaitGroup\<close>.  \<open>quitSignalCancel\<close> is \<open>None\<close> for a
  \<open>nil\<close> cancel function and \<open>Some b\<close> otherwise, \<open>b\<close> telling whether the context has been
  cancelled (the earlier revision calls the field \<open>cancel\<close>).
\<close>

record 'j Task_fields =
  Jobs :: "addr list"
  Cron :: cron
  stoppingTimeout :: "64 word"
  wg :: int
  quitSignalCancel :: "bool option"
  heap :: "addr \<Rightarrow> 'j"
  logs :: "logrec list"
  clock :: int

record Task = "job Task_fields" +
  rootPathInDocker :: string
  testMode :: bool
  files :: "string \<rightharpoonup> string"

type_synonym Task_prev = "job_prev Task_fields"

definition NewTask :: "(addr \<Rightarrow> job) \<Rightarrow> int \<Rightarrow> Task" where
  "NewTask h now =
     \<lparr>Jobs = [], Cron = cron_New, stoppingTimeout = 3000, wg = 0, quitSignalCancel = None,
      heap = h, logs = [], clock = now, rootPathInDocker = [], testMode = False,
      files = Map.empty\<rparr>"

definition NewTask_prev :: "(addr \<Rightarrow> job_prev) \<Rightarrow> int \<Rightarrow> Task_prev" where
  "NewTask_prev h now =
     \<lparr>Jobs = [], Cron = cron_New, stoppingTimeout = 3000, wg = 0, quitSignalCancel = None,
      heap = h, logs = [], clock = now\<rparr>"

subsection \<open>job.go: the shell file\<close>

text \<open>
  Modelled from the spec: \<open>saveShellFile\<close> and \<open>deleteShellFile\<close> are defined in job.go.
  Section 4.2: the first ``writes the ordered commands into a freshly-named,
  process-private executable artifact'' and fails when the artifact cannot be created
  (task.go does not look at its outcome); the second ``removes the on-disk artifact;
  idempotent''.
\<close>

definition saveShellFile :: "job env \<Rightarrow> addr \<Rightarrow> Task \<Rightarrow> Task" where
  "saveShellFile env a t =
     (let j = heap t a
      in if writable env (shellFile j) then t\<lparr>files := (files t)(shellFile j \<mapsto> Command j)\<rparr>
         else t)"

definition deleteShellFile :: "addr \<Rightarrow> Task \<Rightarrow> Task" where
  "deleteShellFile a t = t\<lparr>files := (files t)(shellFile (heap t a) := None)\<rparr>"

subsection \<open>createCronJob\<close>

text \<open>The \<open>switch\<close> on \<open>job.RunningMode\<close>, after \<open>cron.Recover\<close> has been appended.\<close>

definition jobWrappers :: "string \<Rightarrow> JobWrapper list" where
  "jobWrappers mode =
     [Recover] @
     (if mode = ''delay'' then [DelayIfStillRunning]
      else if mode = ''skip'' then [SkipIfStillRunning]
      else [])"

definition createCronJob :: "job env \<Rightarrow> string \<Rightarrow> addr \<Rightarrow> Task \<Rightarrow> error \<times> Task" where
  "createCronJob env configFile a t =
     (let job = heap t a
      in case cron_AddJob (parse env) (Cron t) (Schedule job) (jobWrappers (RunningMode job)) a of
           (Inl err, c) \<Rightarrow> (Some (''invalid schedule ['' @ Schedule job @ '']: '' @ err), t)
         | (Inr i, c) \<Rightarrow>
             let t1 = t\<lparr>Cron := c, heap := (heap t)(a := job\<lparr>id' := i\<rparr>)\<rparr>;
                 configFile1 =
                   (if configFile = ''argument'' then Join [TempDir env, ''argument'']
                    else configFile);
                 name =
                   (if testMode t1
                    then ''.test-'' @ Base configFile1 @ ''-'' @ itoa i @ ''.sh''
                    else ''.'' @ Base configFile1 @ ''-'' @ itoa i @ ''.sh'');
                 t2 = t1\<lparr>heap := (heap t1)(a := (heap t1 a)\<lparr>shellFile := Join [Dir configFile1, name]\<rparr>)\<rparr>
             in (None, saveShellFile env a t2))"

definition createCronJob_prev :: "job_prev env \<Rightarrow> addr \<Rightarrow> Task_prev \<Rightarrow> error \<times> Task_prev" where
  "createCronJob_prev env a t =
     (let job = heap t a
      in case cron_AddJob (parse env) (Cron t) (Schedule job) (jobWrappers (RunningMode job)) a of
           (Inl err, c) \<Rightarrow> (Some (''invalid schedule ['' @ Schedule job @ '']: '' @ err), t)
         | (Inr i, c) \<Rightarrow> (None, t\<lparr>Cron := c, heap := (heap t)(a := job\<lparr>id' := i\<rparr>)\<rparr>))"

subsection \<open>AddJob\<close>

text \<open>
  The \<open>for\<close> loop of \<open>AddJob\<close> over the batch; every \<open>return\<close> inside it leaves the
  function, so \<open>t.Jobs = append(t.Jobs, jobs...)\<close> is reached only after the last round.
\<close>

fun AddJob_loop :: "job env \<Rightarrow> string \<Rightarrow> addr list \<Rightarrow> Task \<Rightarrow> error result \<times> Task" where
  "AddJob_loop env configFile [] t = (Return None, t)"
| "AddJob_loop env configFile (a # rest) t =
     (if Schedule (heap t a) = [] then (Return (Some ''schedule required''), t)
      else if Command (heap t a) = [] then
        (Return (Some (''command of schedule: \"'' @ Schedule (heap t a) @ ''\" required'')), t)
      else
        let t1 = t\<lparr>heap := (heap t)(a := (heap t a)\<lparr>task := True\<rparr>)\<rparr>
        in case makeLogger env (heap t1 a) of
             Some err \<Rightarrow> (Return (Some err), t1)
           | None \<Rightarrow>
               let t2 = t1\<lparr>heap := (heap t1)(a := (heap t1 a)\<lparr>logger := True\<rparr>)\<rparr>
               in case createCronJob env configFile a t2 of
                    (Some err, t3) \<Rightarrow> (Return (Some err), t3)
                  | (None, t3) \<Rightarrow>
                      (case truncateText (Command (heap t3 a)) 40 of
                         Panic m \<Rightarrow> (Panic m, t3)
                       | Return c \<Rightarrow>
                           AddJob_loop env configFile rest
                             (t3\<lparr>logs := logs t3 @
                                [Info ''add job'' [(''schedule'', Schedule (heap t3 a)), (''command'', c)]]\<rparr>)))"

definition AddJob :: "job env \<Rightarrow> string \<Rightarrow> addr list \<Rightarrow> Task \<Rightarrow> error result \<times> Task" where
  "AddJob env configFile jobs t =
     (case AddJob_loop env configFile jobs t of
        (Return None, t1) \<Rightarrow> (Return None, t1\<lparr>Jobs := Jobs t1 @ jobs\<rparr>)
      | r \<Rightarrow> r)"

fun AddJob_loop_prev :: "job_prev env \<Rightarrow> addr list \<Rightarrow> Task_prev \<Rightarrow> error \<times> Task_prev" where
  "AddJob_loop_prev env [] t = (None, t)"
| "AddJob_loop_prev env (a # rest) t =
     (if Schedule (heap t a) = [] then (Some ''schedule required'', t)
      else if length (Commands (heap t a)) < 1 then
        (Some (''command of schedule: \"'' @ Schedule (heap t a) @ ''\" required''), t)
      else
        let t1 = t\<lparr>heap := (heap t)(a := (heap t a)\<lparr>task := True\<rparr>)\<rparr>
        in case makeLogger env (heap t1 a) of
             Some err \<Rightarrow> (Some err, t1)
           | None \<Rightarrow>
               let t2 = t1\<lparr>heap := (heap t1)(a := (heap t1 a)\<lparr>logger := True\<rparr>)\<rparr>
               in case createCronJob_prev env a t2 of
                    (Some err, t3) \<Rightarrow> (Some err, t3)
                  | (None, t3) \<Rightarrow>
                      AddJob_loop_prev env rest
                        (t3\<lparr>logs := logs t3 @
                           [Info ''add job'' [(''name'', Name (heap t3 a)), (''schedule'', Schedule (heap t3 a))]]\<rparr>))"

definition AddJob_prev :: "job_prev env \<Rightarrow> addr list \<Rightarrow> Task_prev \<Rightarrow> error \<times> Task_prev" where
  "AddJob_prev env jobs t =
     (case AddJob_loop_prev env jobs t of
        (None, t1) \<Rightarrow> (None, t1\<lparr>Jobs := Jobs t1 @ jobs\<rparr>)
      | r \<Rightarrow> r)"

subsection \<open>Start\<close>

text \<open>
  \<open>WaitGroup.Add(delta)\<close> panics when the counter becomes negative; \<open>Done()\<close> is
  \<open>Add(-1)\<close>.
\<close>

definition wg_Add :: "int \<Rightarrow> ('j, 'z) Task_fields_scheme \<Rightarrow> unit result \<times> ('j, 'z) Task_fields_scheme" where
  "wg_Add delta t =
     (if wg t + delta < 0 then (Panic ''sync: negative WaitGroup counter'', t\<lparr>wg := wg t + delta\<rparr>)
      else (Return (), t\<lparr>wg := wg t + delta\<rparr>))"

text \<open>\<open>if t.quitSignalCancel != nil { t.quitSignalCancel() }\<close>\<close>

definition cancelQuitSignal :: "('j, 'z) Task_fields_scheme \<Rightarrow> ('j, 'z) Task_fields_scheme" where
  "cancelQuitSignal t =
     (case quitSignalCancel t of
        None \<Rightarrow> t
      | Some b \<Rightarrow> t\<lparr>quitSignalCancel := Some True\<rparr>)"

text \<open>
  \<open>startTest\<close> also spawns a goroutine that runs every job and then calls \<open>stopTest\<close>;
  it runs concurrently with the caller and is no part of what \<open>Start\<close> has done when it
  returns.
\<close>

definition startTest :: "Task \<Rightarrow> unit result \<times> Task" where
  "startTest t =
     (let t1 = t\<lparr>logs := logs t @ [Info ''cron start in test mode'' []]\<rparr>
      in case wg_Add 1 t1 of
           (Panic m, t2) \<Rightarrow> (Panic m, t2)
         | (Return u, t2) \<Rightarrow> (Return (), (cancelQuitSignal t2)\<lparr>quitSignalCancel := Some False\<rparr>))"

definition Start :: "Task \<Rightarrow> unit result \<times> Task" where
  "Start t =
     (if testMode t then startTest t
      else
        let t1 = t\<lparr>Cron := cron_Start (Cron t)\<rparr>;
            t2 = t1\<lparr>logs := logs t1 @ [Info ''cron start'' []]\<rparr>
        in case wg_Add 1 t2 of
             (Panic m, t3) \<Rightarrow> (Panic m, t3)
           | (Return u, t3) \<Rightarrow> (Return (), (cancelQuitSignal t3)\<lparr>quitSignalCancel := Some False\<rparr>))"

definition Start_prev :: "Task_prev \<Rightarrow> unit result \<times> Task_prev" where
  "Start_prev t =
     (let t1 = t\<lparr>Cron := cron_Start (Cron t)\<rparr>;
          t2 = t1\<lparr>logs := logs t1 @ [Info ''cron start'' []]\<rparr>
      in case wg_Add 1 t2 of
           (Panic m, t3) \<Rightarrow> (Panic m, t3)
         | (Return u, t3) \<Rightarrow> (Return (), (cancelQuitSignal t3)\<lparr>quitSignalCancel := Some False\<rparr>))"

subsection \<open>Stop\<close>

text \<open>
  The loop \<open>for1\<close> of \<open>stopImpl\<close>.  \<open>time.Sleep(d)\<close> pauses for at least \<open>d\<close>; the loop is
  given exactly \<open>d\<close>, the least the clock can advance.  Everything else takes no time.
  With a context that is never done the loop need not end, so it is a partial function:
  \<open>None\<close> stands for a loop that never exits.
\<close>

partial_function (option) stopImpl_loop :: "job env \<Rightarrow> ctx \<Rightarrow> Task \<Rightarrow> Task option" where
  "stopImpl_loop env c t =
     (if runningCount env (clock t) > 0 then
        (case ctx_Err c (clock t) of
           Some e \<Rightarrow>
             Some (if e = DeadlineExceeded
                   then t\<lparr>logs := logs t @ [Error [] ''cron jobs force quiting'']\<rparr>
                   else t)
         | None \<Rightarrow> stopImpl_loop env c (t\<lparr>clock := clock t + sint (100 * Second)\<rparr>))
      else Some t)"

text \<open>
  \<open>stopImpl\<close>: the body, then the deferred calls in reverse order of their \<open>defer\<close>
  statements: first the shell files of all of \<open>t.Jobs\<close> are deleted, then \<open>t.wg.Done()\<close>.
\<close>

definition stopImpl :: "job env \<Rightarrow> ctx \<Rightarrow> Task \<Rightarrow> (unit result \<times> Task) option" where
  "stopImpl env c t =
     (case stopImpl_loop env c (cancelQuitSignal t) of
        None \<Rightarrow> None
      | Some t1 \<Rightarrow>
          let t2 = t1\<lparr>logs := logs t1 @ [Info ''all jobs quit'' []]\<rparr>;
              t3 = fold deleteShellFile (Jobs t2) t2
          in Some (wg_Add (- 1) t3))"

definition stopTest :: "job env \<Rightarrow> Task \<Rightarrow> (unit result \<times> Task) option" where
  "stopTest env t =
     stopImpl env (WithTimeout Background (stoppingTimeout t * Millisecond) (clock t)) t"

definition Stop :: "job env \<Rightarrow> Task \<Rightarrow> (unit result \<times> Task) option" where
  "Stop env t =
     (if testMode t then stopTest env t
      else
        case cron_Stop (cronIdle env) (clock t) (Cron t) of
          (stoppingCtx, c) \<Rightarrow>
            let t1 = t\<lparr>Cron := c\<rparr>
            in stopImpl env (WithTimeout stoppingCtx (stoppingTimeout t1 * Millisecond) (clock t1)) t1)"

text \<open>
  The earlier revision of \<open>Stop\<close>.  Its context is \<open>WithTimeout(Background(), d)\<close>, done
  from \<open>deadline\<close> on, so the loop always ends: the deadline is tested first in every
  round, then the counter.
\<close>

function Stop_loop_prev :: "job_prev env \<Rightarrow> int \<Rightarrow> Task_prev \<Rightarrow> Task_prev" where
  "Stop_loop_prev env deadline t =
     (if deadline \<le> clock t then t\<lparr>logs := logs t @ [Error [] ''force quit'']\<rparr>
      else if runningCount env (clock t) > 0 then
        Stop_loop_prev env deadline (t\<lparr>clock := clock t + sint (100 * Second)\<rparr>)
      else t)"
  by pat_completeness auto
termination
  by (relation "measure (\<lambda>(env, deadline, t). nat (deadline - clock t))")
     (auto simp: Second_def)

declare Stop_loop_prev.simps [simp del]

definition Stop_prev :: "job_prev env \<Rightarrow> Task_prev \<Rightarrow> unit result \<times> Task_prev" where
  "Stop_prev env t =
     (let t1 = t\<lparr>Cron := snd (cron_Stop (cronIdle env) (clock t) (Cron t))\<rparr>;
          t2 = cancelQuitSignal t1;
          deadline = clock t2 + sint (stoppingTimeout t2 * Millisecond)
      in wg_Add (- 1) (Stop_loop_prev env deadline t2))"

section \<open>Concrete configurations\<close>

text \<open>
  Small configurations on which the properties below are exercised: in the first the job
  at address 1 has no schedule, in the second (earlier revision) it has no commands; every
  other address holds a well-formed job, the jobs at 2, 3 and 4 with running modes of
  their own (4 has a misspelt one).
\<close>

definition env0 :: "job env" where
  "env0 = \<lparr>parse = (\<lambda>s. if s = ''bad'' then Some ''expected exactly 5 fields'' else None),
           makeLogger = (\<lambda>j. None), TempDir = ''/tmp'', writable = (\<lambda>p. True),
           runningCount = (\<lambda>now. 0), cronIdle = None\<rparr>"

definition heap0 :: "addr \<Rightarrow> job" where
  "heap0 a =
     (if a = 1 then
        \<lparr>Schedule = [], RunningMode = [], task = False, logger = False, id' = 0,
         Command = ''echo 2'', shellFile = []\<rparr>
      else
        \<lparr>Schedule = ''* * * * *'',
         RunningMode = (if a = 2 then ''delay'' else if a = 3 then [] else if a = 4 then ''Skip''
                        else ''skip''),
         task = False, logger = False, id' = 0, Command = ''echo 1'', shellFile = []\<rparr>)"

definition task0 :: Task where
  "task0 = NewTask heap0 0"

definition env0_prev :: "job_prev env" where
  "env0_prev = \<lparr>parse = (\<lambda>s. if s = ''bad'' then Some ''expected exactly 5 fields'' else None),
           makeLogger = (\<lambda>j. None), TempDir = ''/tmp'', writable = (\<lambda>p. True),
           runningCount = (\<lambda>now. 0), cronIdle = None\<rparr>"

definition heap0_prev :: "addr \<Rightarrow> job_prev" where
  "heap0_prev a =
     (if a = 1 then
        \<lparr>Schedule = ''@every 1s'', RunningMode = [], task = False, logger = False, id' = 0,
         Name = ''b'', Commands = []\<rparr>
      else
        \<lparr>Schedule = ''* * * * *'',
         RunningMode = (if a = 2 then ''skip'' else if a = 3 then [] else if a = 4 then ''delayed''
                        else ''delay''),
         task = False, logger = False, id' = 0, Name = ''a'', Commands = [''echo 1'']\<rparr>)"

definition task0_prev :: Task_prev where
  "task0_prev = NewTask_prev heap0_prev 0"

text \<open>
  A task that has been started with one job registered; environments in which one execution
  is in flight when \<open>Stop\<close> is called and ends at time \<open>fin\<close> (never, for \<open>None\<close>); and a
  task started after a batch has failed at its second job.
\<close>

definition env_running :: "int option \<Rightarrow> job env" where
  "env_running fin =
     env0\<lparr>runningCount := (\<lambda>now. case fin of None \<Rightarrow> 1 | Some f \<Rightarrow> if now < f then 1 else 0),
          cronIdle := fin\<rparr>"

definition env_running_prev :: "int option \<Rightarrow> job_prev env" where
  "env_running_prev fin =
     env0_prev\<lparr>runningCount := (\<lambda>now. case fin of None \<Rightarrow> 1 | Some f \<Rightarrow> if now < f then 1 else 0),
          cronIdle := fin\<rparr>"

definition task_started :: Task where
  "task_started = snd (Start (snd (AddJob env0 ''conf/a.yml'' [0] task0)))"

definition task_started_prev :: Task_prev where
  "task_started_prev = snd (Start_prev (snd (AddJob_prev env0_prev [0] task0_prev)))"

definition task_partial :: Task where
  "task_partial = snd (Start (snd (AddJob env0 ''conf/a.yml'' [0, 1, 2] task0)))"

section \<open>Properties of func.go\<close>

text \<open>
  C10.  For every string \<open>s\<close> and every \<open>max\<close> with \<open>0 \<le> max\<close>, \<open>truncateText(s, max)\<close>
  returns \<open>s\<close> unchanged whenever \<open>max \<ge> len(s)\<close>, and otherwise returns the first \<open>max\<close>
  bytes of \<open>s\<close> followed by \<open>...\<close>, a result of length \<open>max + 3\<close>; that result can be
  longer than \<open>s\<close> (it is whenever \<open>len(s) - 3 < max < len(s)\<close>, and such inputs exist).
\<close>

theorem truncateText_spec:
  assumes "0 \<le> mx"
  shows "(int (length s) \<le> mx \<longrightarrow> truncateText s mx = Return s)
       \<and> (mx < int (length s) \<longrightarrow>
            truncateText s mx = Return (take (nat mx) s @ ''...'')
          \<and> length (take (nat mx) s @ ''...'') = nat mx + 3
          \<and> (int (length s) - 3 < mx \<longrightarrow> length s < length (take (nat mx) s @ ''...'')))
       \<and> (\<exists>s' mx' r. 0 \<le> mx' \<and> truncateText s' mx' = Return r \<and> length s' < length r)"
proof -
  have ex: "truncateText ''abcd'' 3 = Return ''abc...''"
    by (simp add: truncateText_def)
  have "\<exists>s' mx' r. 0 \<le> mx' \<and> truncateText s' mx' = Return r \<and> length s' < length r"
    by (rule exI [of _ "''abcd''"], rule exI [of _ 3], rule exI [of _ "''abc...''"])
       (simp add: ex)
  with assms show ?thesis
    by (auto simp: truncateText_def min_def)
qed

theorem truncateText_spec_witness:
  "(0::int) \<le> 3
   \<and> truncateText ''abcd'' 3 = Return ''abc...''
   \<and> length ''abc...'' = 6
   \<and> length ''abcd'' < length ''abc...''
   \<and> truncateText ''ab'' 5 = Return ''ab''"
  using truncateText_spec [of 3 "''abcd''"] truncateText_spec [of 5 "''ab''"]
  by simp

section \<open>Properties of AddJob\<close>

subsection \<open>The loop of the current revision\<close>

lemma truncateText_40: "\<exists>c. truncateText s 40 = Return c"
  by (simp add: truncateText_def)

lemma AddJob_loop_append:
  "AddJob_loop env cf (xs @ ys) t =
     (case AddJob_loop env cf xs t of
        (Return None, t1) \<Rightarrow> AddJob_loop env cf ys t1
      | r \<Rightarrow> r)"
proof (induction xs arbitrary: t)
  case Nil
  show ?case by simp
next
  case (Cons a xs)
  show ?case
    by (simp add: Cons.IH Let_def split: option.split prod.split result.split)
qed

lemma AddJob_loop_Cons:
  "AddJob_loop env cf (a # rest) t =
     (case AddJob_loop env cf [a] t of
        (Return None, t1) \<Rightarrow> AddJob_loop env cf rest t1
      | r \<Rightarrow> r)"
  using AddJob_loop_append [of env cf "[a]" rest t] by simp

lemma AddJob_step_ok:
  assumes "AddJob_loop env cf [a] t = (Return None, t')"
  shows "entries (Cron t') = entries (Cron t) @
           [\<lparr>ID = next' (Cron t) + 1, Spec = Schedule (heap t a),
             Chain = jobWrappers (RunningMode (heap t a)), Job = a\<rparr>]"
    and "next' (Cron t') = next' (Cron t) + 1"
    and "Jobs t' = Jobs t"
    and "testMode t' = testMode t"
    and "Schedule (heap t a) \<noteq> []"
    and "Command (heap t a) \<noteq> []"
    and "parse env (Schedule (heap t a)) = None"
    and "Schedule (heap t' b) = Schedule (heap t b)"
    and "Command (heap t' b) = Command (heap t b)"
    and "b \<noteq> a \<Longrightarrow> heap t' b = heap t b"
    and "id' (heap t' a) = next' (Cron t) + 1"
    and "writable env (shellFile (heap t' a)) \<Longrightarrow> shellFile (heap t' a) \<in> dom (files t')"
    and "dom (files t) \<subseteq> dom (files t')"
  using assms truncateText_40 [of "Command (heap t a)"]
  by (auto simp: createCronJob_def cron_AddJob_def Let_def saveShellFile_def
           split: option.splits if_splits result.splits)

lemma AddJob_step_err:
  assumes "AddJob_loop env cf [a] t = (Return (Some e), t')"
  shows "Cron t' = Cron t"
    and "Jobs t' = Jobs t"
    and "files t' = files t"
    and "shellFile (heap t' b) = shellFile (heap t b)"
    and "Schedule (heap t' b) = Schedule (heap t b)"
    and "Command (heap t' b) = Command (heap t b)"
  using assms truncateText_40 [of "Command (heap t a)"]
  by (auto simp: createCronJob_def cron_AddJob_def Let_def saveShellFile_def
           split: option.splits if_splits result.splits)

lemma AddJob_step_no_panic: "AddJob_loop env cf [a] t \<noteq> (Panic m, t')"
  using truncateText_40 [of "Command (heap t a)"]
  by (auto simp: createCronJob_def cron_AddJob_def Let_def saveShellFile_def
           split: option.splits if_splits result.splits)

lemma AddJob_loop_no_panic: "AddJob_loop env cf js t \<noteq> (Panic m, t')"
proof (induction js arbitrary: t)
  case Nil
  show ?case by simp
next
  case (Cons a js)
  show ?case
    using Cons.IH AddJob_step_no_panic [of env cf a t]
    by (cases "AddJob_loop env cf [a] t")
       (auto simp: AddJob_loop_Cons [of env cf a js] simp del: AddJob_loop.simps(2)
             split: result.splits option.splits)
qed

lemma AddJob_loop_ok:
  "AddJob_loop env cf js t = (Return None, t') \<Longrightarrow>
     map Job (entries (Cron t')) = map Job (entries (Cron t)) @ js \<and> Jobs t' = Jobs t"
proof (induction js arbitrary: t)
  case Nil
  then show ?case by simp
next
  case (Cons a js)
  from Cons.prems obtain t1 where
    s: "AddJob_loop env cf [a] t = (Return None, t1)" and r: "AddJob_loop env cf js t1 = (Return None, t')"
    by (cases "AddJob_loop env cf [a] t")
       (auto simp: AddJob_loop_Cons [of env cf a js] simp del: AddJob_loop.simps(2)
             split: result.splits option.splits)
  from Cons.IH [OF r] AddJob_step_ok(1,3) [OF s] show ?case by simp
qed

lemma AddJob_loop_error_decomp:
  "AddJob_loop env cf js t = (Return (Some e), t') \<Longrightarrow>
     \<exists>pre a post t1. js = pre @ a # post
       \<and> AddJob_loop env cf pre t = (Return None, t1)
       \<and> AddJob_loop env cf [a] t1 = (Return (Some e), t')"
proof (induction js arbitrary: t)
  case Nil
  then show ?case by simp
next
  case (Cons a js)
  show ?case
  proof (cases "AddJob_loop env cf [a] t")
    case (Pair r t1)
    show ?thesis
    proof (cases r)
      case (Panic m)
      with Pair have "AddJob_loop env cf [a] t = (Panic m, t1)" by (simp only:)
      with AddJob_step_no_panic [of env cf a t m t1] show ?thesis by contradiction
    next
      case (Return x)
      show ?thesis
      proof (cases x)
        case (Some e')
        with Return Pair Cons.prems have "AddJob_loop env cf [a] t = (Return (Some e), t')"
          by (simp add: AddJob_loop_Cons [of env cf a js] del: AddJob_loop.simps(2))
        then have "a # js = [] @ a # js \<and> AddJob_loop env cf [] t = (Return None, t)
            \<and> AddJob_loop env cf [a] t = (Return (Some e), t')"
          by simp
        then show ?thesis by blast
      next
        case None
        with Return Pair Cons.prems have r: "AddJob_loop env cf js t1 = (Return (Some e), t')"
          by (simp add: AddJob_loop_Cons [of env cf a js] del: AddJob_loop.simps(2))
        from Cons.IH [OF r] obtain pre b post t2 where
          d: "js = pre @ b # post" "AddJob_loop env cf pre t1 = (Return None, t2)"
             "AddJob_loop env cf [b] t2 = (Return (Some e), t')"
          by blast
        from d(2) None Return Pair have "AddJob_loop env cf (a # pre) t = (Return None, t2)"
          by (simp add: AddJob_loop_Cons [of env cf a pre] del: AddJob_loop.simps(2))
        with d(1,3) have "a # js = (a # pre) @ b # post \<and> AddJob_loop env cf (a # pre) t = (Return None, t2)
            \<and> AddJob_loop env cf [b] t2 = (Return (Some e), t')"
          by simp
        then show ?thesis by blast
      qed
    qed
  qed
qed


lemma createCronJob_Jobs:
  "createCronJob env cf a (t\<lparr>Jobs := J\<rparr>) =
     (fst (createCronJob env cf a t), (snd (createCronJob env cf a t))\<lparr>Jobs := J\<rparr>)"
  by (simp add: createCronJob_def cron_AddJob_def Let_def saveShellFile_def split: option.split)

lemma AddJob_step_Jobs:
  "AddJob_loop env cf [a] (t\<lparr>Jobs := J\<rparr>) =
     (fst (AddJob_loop env cf [a] t), (snd (AddJob_loop env cf [a] t))\<lparr>Jobs := J\<rparr>)"
proof -
  let ?t2 = "t\<lparr>heap := (heap t)(a := (heap t a)\<lparr>task := True, logger := True\<rparr>)\<rparr>"
  have upd: "t\<lparr>Jobs := J, heap := (heap t)(a := (heap t a)\<lparr>task := True, logger := True\<rparr>)\<rparr> = ?t2\<lparr>Jobs := J\<rparr>"
    by simp
  obtain r u where c: "createCronJob env cf a ?t2 = (r, u)"
    by (cases "createCronJob env cf a ?t2")
  then have c': "createCronJob env cf a (?t2\<lparr>Jobs := J\<rparr>) = (r, u\<lparr>Jobs := J\<rparr>)"
    by (simp add: createCronJob_Jobs)
  obtain x where x: "truncateText (Command (heap u a)) 40 = Return x"
    using truncateText_40 by blast
  show ?thesis
    using c c' x
    by (simp add: Let_def upd split: option.split)
qed

lemma AddJob_loop_Jobs:
  "AddJob_loop env cf js (t\<lparr>Jobs := J\<rparr>) =
     (fst (AddJob_loop env cf js t), (snd (AddJob_loop env cf js t))\<lparr>Jobs := J\<rparr>)"
proof (induction js arbitrary: t)
  case Nil
  show ?case by simp
next
  case (Cons a js)
  show ?case
    by (cases "AddJob_loop env cf [a] t")
       (simp add: AddJob_loop_Cons [of env cf a js] AddJob_step_Jobs Cons.IH
             del: AddJob_loop.simps(2) split: result.split option.split)
qed

lemma AddJob_loop_frame:
  "AddJob_loop env cf js t = (Return None, t') \<Longrightarrow>
     dom (files t) \<subseteq> dom (files t') \<and> (\<forall>b. b \<notin> set js \<longrightarrow> heap t' b = heap t b)"
proof (induction js arbitrary: t)
  case Nil
  then show ?case by simp
next
  case (Cons a js)
  from Cons.prems obtain t1 where
    s: "AddJob_loop env cf [a] t = (Return None, t1)" and r: "AddJob_loop env cf js t1 = (Return None, t')"
    by (cases "AddJob_loop env cf [a] t")
       (auto simp: AddJob_loop_Cons [of env cf a js] simp del: AddJob_loop.simps(2)
             split: result.splits option.splits)
  from Cons.IH [OF r] have ih: "dom (files t1) \<subseteq> dom (files t')"
    "\<And>b. b \<notin> set js \<Longrightarrow> heap t' b = heap t1 b" by blast+
  from AddJob_step_ok(13) [OF s] ih(1) have "dom (files t) \<subseteq> dom (files t')" by blast
  moreover have "heap t' b = heap t b" if "b \<notin> set (a # js)" for b
    using that ih(2) [of b] AddJob_step_ok(10) [OF s, of b] by simp
  ultimately show ?case by blast
qed

lemma AddJob_loop_files:
  "AddJob_loop env cf js t = (Return None, t') \<Longrightarrow>
     \<forall>b\<in>set js. writable env (shellFile (heap t' b)) \<longrightarrow> shellFile (heap t' b) \<in> dom (files t')"
proof (induction js arbitrary: t)
  case Nil
  then show ?case by simp
next
  case (Cons a js)
  from Cons.prems obtain t1 where
    s: "AddJob_loop env cf [a] t = (Return None, t1)" and r: "AddJob_loop env cf js t1 = (Return None, t')"
    by (cases "AddJob_loop env cf [a] t")
       (auto simp: AddJob_loop_Cons [of env cf a js] simp del: AddJob_loop.simps(2)
             split: result.splits option.splits)
  have "writable env (shellFile (heap t' a)) \<longrightarrow> shellFile (heap t' a) \<in> dom (files t')"
  proof (cases "a \<in> set js")
    case True
    with Cons.IH [OF r] show ?thesis by blast
  next
    case False
    with AddJob_loop_frame [OF r] have "heap t' a = heap t1 a" and "dom (files t1) \<subseteq> dom (files t')"
      by blast+
    with AddJob_step_ok(12) [OF s] show ?thesis by auto
  qed
  with Cons.IH [OF r] show ?case by (simp del: AddJob_loop.simps(2))
qed

lemma AddJob_error_iff:
  "AddJob env cf js t = (Return (Some e), t') \<longleftrightarrow> AddJob_loop env cf js t = (Return (Some e), t')"
  by (cases "AddJob_loop env cf js t")
     (auto simp: AddJob_def split: result.splits option.splits)

lemma AddJob_ok_iff:
  "AddJob env cf js t = (Return None, t') \<longleftrightarrow>
     (\<exists>t1. AddJob_loop env cf js t = (Return None, t1) \<and> t' = t1\<lparr>Jobs := Jobs t1 @ js\<rparr>)"
  by (cases "AddJob_loop env cf js t")
     (auto simp: AddJob_def split: result.splits option.splits)

lemma AddJob_first_error_cur:
  assumes "AddJob env cf pre t = (Return None, t1)"
    and "AddJob env cf [a] t1 = (Return (Some e), t2)"
  shows "AddJob env cf (pre @ a # post) t = (Return (Some e), t2\<lparr>Jobs := Jobs t\<rparr>)
       \<and> map Job (entries (Cron t2)) = map Job (entries (Cron t)) @ pre
       \<and> Jobs t1 = Jobs t @ pre"
proof -
  from assms(1) obtain u1 where
    l1: "AddJob_loop env cf pre t = (Return None, u1)" and t1_eq: "t1 = u1\<lparr>Jobs := Jobs u1 @ pre\<rparr>"
    by (auto simp: AddJob_ok_iff)
  from assms(2) have l2: "AddJob_loop env cf [a] t1 = (Return (Some e), t2)"
    by (simp only: AddJob_error_iff)
  obtain r u2 where l3: "AddJob_loop env cf [a] u1 = (r, u2)"
    by (cases "AddJob_loop env cf [a] u1")
  have "AddJob_loop env cf [a] t1 = (r, u2\<lparr>Jobs := Jobs u1 @ pre\<rparr>)"
    unfolding t1_eq by (subst AddJob_step_Jobs) (simp only: l3 fst_conv snd_conv)
  with l2 have r: "r = Return (Some e)" and t2_eq: "t2 = u2\<lparr>Jobs := Jobs u1 @ pre\<rparr>"
    by (simp_all only: prod.inject)
  from AddJob_loop_ok [OF l1] have u1: "map Job (entries (Cron u1)) = map Job (entries (Cron t)) @ pre"
    and ju1: "Jobs u1 = Jobs t" by simp_all
  from l3 r have l3': "AddJob_loop env cf [a] u1 = (Return (Some e), u2)" by (simp only:)
  from AddJob_step_err(1,2) [OF l3'] have cu2: "Cron u2 = Cron u1" and ju2: "Jobs u2 = Jobs u1"
    by (simp_all only:)
  have "AddJob_loop env cf (pre @ a # post) t = (Return (Some e), u2)"
    by (simp only: AddJob_loop_append [of env cf pre] l1 AddJob_loop_Cons [of env cf a post] l3'
          prod.case result.case option.case)
  then have A: "AddJob env cf (pre @ a # post) t = (Return (Some e), u2)"
    by (simp only: AddJob_error_iff)
  have "u2\<lparr>Jobs := Jobs u2\<rparr> = u2" by simp
  then have "u2\<lparr>Jobs := Jobs t\<rparr> = u2" by (simp only: ju2 ju1)
  then have B: "t2\<lparr>Jobs := Jobs t\<rparr> = u2" by (simp add: t2_eq)
  have C: "Cron t2 = Cron u1" by (simp add: t2_eq cu2)
  have D: "Jobs t1 = Jobs t @ pre" by (simp add: t1_eq ju1)
  show ?thesis by (simp only: A B C u1 D)
qed

lemma AddJob_invalid_cur:
  assumes "a \<in> set js"
    and "Schedule (heap t a) = [] \<or> Command (heap t a) = []"
  shows "\<exists>e t' new. AddJob_loop env cf js t = (Return (Some e), t')
          \<and> Jobs t' = Jobs t
          \<and> entries (Cron t') = entries (Cron t) @ new \<and> a \<notin> Job ` set new"
  using assms
proof (induction js arbitrary: t)
  case Nil
  then show ?case by simp
next
  case (Cons b js)
  obtain r t1 where s: "AddJob_loop env cf [b] t = (r, t1)"
    by (cases "AddJob_loop env cf [b] t")
  show ?case
  proof (cases r)
    case (Panic m)
    with s have "AddJob_loop env cf [b] t = (Panic m, t1)" by (simp only:)
    with AddJob_step_no_panic [of env cf b t m t1] show ?thesis by contradiction
  next
    case (Return x)
    show ?thesis
    proof (cases x)
      case (Some e)
      with Return s have err: "AddJob_loop env cf [b] t = (Return (Some e), t1)" by (simp only:)
      have f1: "AddJob_loop env cf (b # js) t = (Return (Some e), t1)"
        by (simp only: AddJob_loop_Cons [of env cf b js] err prod.case result.case option.case)
      have f2: "Jobs t1 = Jobs t"
        by (rule AddJob_step_err(2) [OF err])
      have f3: "entries (Cron t1) = entries (Cron t) @ []"
        by (simp only: AddJob_step_err(1) [OF err] append_Nil2)
      have f4: "a \<notin> Job ` set []" by simp
      show ?thesis
        by (rule exI [of _ e], rule exI [of _ t1], rule exI [of _ "[]"]) (intro conjI f1 f2 f3 f4)
    next
      case None
      with Return s have ok: "AddJob_loop env cf [b] t = (Return None, t1)" by (simp only:)
      from AddJob_step_ok(5,6) [OF ok] Cons.prems(2) have ne: "b \<noteq> a" by blast
      with Cons.prems(1) have in_js: "a \<in> set js" by simp
      have "Schedule (heap t1 a) = [] \<or> Command (heap t1 a) = []"
        using Cons.prems(2) by (simp only: AddJob_step_ok(8,9) [OF ok])
      from Cons.IH [OF in_js this] obtain e t' new where
        ih: "AddJob_loop env cf js t1 = (Return (Some e), t')" "Jobs t' = Jobs t1"
            "entries (Cron t') = entries (Cron t1) @ new" "a \<notin> Job ` set new"
        by blast
      define en where "en = \<lparr>ID = next' (Cron t) + 1, Spec = Schedule (heap t b),
             Chain = jobWrappers (RunningMode (heap t b)), Job = b\<rparr>"
      have f1: "AddJob_loop env cf (b # js) t = (Return (Some e), t')"
        by (simp only: AddJob_loop_Cons [of env cf b js] ok ih(1) prod.case result.case option.case)
      have f2: "Jobs t' = Jobs t"
        by (simp only: ih(2) AddJob_step_ok(3) [OF ok])
      have f3: "entries (Cron t') = entries (Cron t) @ (en # new)"
        by (simp only: ih(3) AddJob_step_ok(1) [OF ok] en_def append_assoc append_Cons append_Nil)
      have "Job en = b" by (simp add: en_def)
      with ih(4) ne have f4: "a \<notin> Job ` set (en # new)" by auto
      show ?thesis
        by (rule exI [of _ e], rule exI [of _ t'], rule exI [of _ "en # new"]) (intro conjI f1 f2 f3 f4)
    qed
  qed
qed

subsection \<open>The loop of the earlier revision\<close>

lemma createCronJob_prev_Jobs:
  "createCronJob_prev env a (t\<lparr>Jobs := J\<rparr>) =
     (fst (createCronJob_prev env a t), (snd (createCronJob_prev env a t))\<lparr>Jobs := J\<rparr>)"
  by (simp add: createCronJob_prev_def cron_AddJob_def Let_def split: option.split)

lemma AddJob_loop_prev_append:
  "AddJob_loop_prev env (xs @ ys) t =
     (case AddJob_loop_prev env xs t of
        (None, t1) \<Rightarrow> AddJob_loop_prev env ys t1
      | r \<Rightarrow> r)"
proof (induction xs arbitrary: t)
  case Nil
  show ?case by simp
next
  case (Cons a xs)
  show ?case
    by (simp add: Cons.IH Let_def split: option.split prod.split)
qed

lemma AddJob_loop_prev_Cons:
  "AddJob_loop_prev env (a # rest) t =
     (case AddJob_loop_prev env [a] t of
        (None, t1) \<Rightarrow> AddJob_loop_prev env rest t1
      | r \<Rightarrow> r)"
  using AddJob_loop_prev_append [of env "[a]" rest t] by simp

lemma AddJob_prev_step_ok:
  assumes "AddJob_loop_prev env [a] t = (None, t')"
  shows "entries (Cron t') = entries (Cron t) @
           [\<lparr>ID = next' (Cron t) + 1, Spec = Schedule (heap t a),
             Chain = jobWrappers (RunningMode (heap t a)), Job = a\<rparr>]"
    and "Jobs t' = Jobs t"
    and "Schedule (heap t a) \<noteq> []"
    and "Commands (heap t a) \<noteq> []"
    and "Schedule (heap t' b) = Schedule (heap t b)"
    and "Commands (heap t' b) = Commands (heap t b)"
  using assms
  by (auto simp: createCronJob_prev_def cron_AddJob_def Let_def split: option.splits if_splits)

lemma AddJob_prev_step_err:
  assumes "AddJob_loop_prev env [a] t = (Some e, t')"
  shows "Cron t' = Cron t"
    and "Jobs t' = Jobs t"
  using assms
  by (auto simp: createCronJob_prev_def cron_AddJob_def Let_def split: option.splits if_splits)

lemma AddJob_loop_prev_ok:
  "AddJob_loop_prev env js t = (None, t') \<Longrightarrow>
     map Job (entries (Cron t')) = map Job (entries (Cron t)) @ js \<and> Jobs t' = Jobs t"
proof (induction js arbitrary: t)
  case Nil
  then show ?case by simp
next
  case (Cons a js)
  from Cons.prems obtain t1 where
    s: "AddJob_loop_prev env [a] t = (None, t1)" and r: "AddJob_loop_prev env js t1 = (None, t')"
    by (cases "AddJob_loop_prev env [a] t")
       (auto simp: AddJob_loop_prev_Cons [of env a js] simp del: AddJob_loop_prev.simps(2)
             split: option.splits)
  from Cons.IH [OF r] AddJob_prev_step_ok(1,2) [OF s] show ?case by simp
qed

lemma AddJob_prev_step_Jobs:
  "AddJob_loop_prev env [a] (t\<lparr>Jobs := J\<rparr>) =
     (fst (AddJob_loop_prev env [a] t), (snd (AddJob_loop_prev env [a] t))\<lparr>Jobs := J\<rparr>)"
proof -
  let ?t2 = "t\<lparr>heap := (heap t)(a := (heap t a)\<lparr>task := True, logger := True\<rparr>)\<rparr>"
  have upd: "t\<lparr>Jobs := J, heap := (heap t)(a := (heap t a)\<lparr>task := True, logger := True\<rparr>)\<rparr> = ?t2\<lparr>Jobs := J\<rparr>"
    by simp
  obtain r u where c: "createCronJob_prev env a ?t2 = (r, u)"
    by (cases "createCronJob_prev env a ?t2")
  then have c': "createCronJob_prev env a (?t2\<lparr>Jobs := J\<rparr>) = (r, u\<lparr>Jobs := J\<rparr>)"
    by (simp add: createCronJob_prev_Jobs)
  show ?thesis
    using c c'
    by (simp add: Let_def upd split: option.split)
qed

lemma AddJob_prev_error_iff:
  "AddJob_prev env js t = (Some e, t') \<longleftrightarrow> AddJob_loop_prev env js t = (Some e, t')"
  by (cases "AddJob_loop_prev env js t")
     (auto simp: AddJob_prev_def split: option.splits)

lemma AddJob_prev_ok_iff:
  "AddJob_prev env js t = (None, t') \<longleftrightarrow>
     (\<exists>t1. AddJob_loop_prev env js t = (None, t1) \<and> t' = t1\<lparr>Jobs := Jobs t1 @ js\<rparr>)"
  by (cases "AddJob_loop_prev env js t")
     (auto simp: AddJob_prev_def split: option.splits)

lemma AddJob_first_error_prev:
  assumes "AddJob_prev env pre t = (None, t1)"
    and "AddJob_prev env [a] t1 = (Some e, t2)"
  shows "AddJob_prev env (pre @ a # post) t = (Some e, t2\<lparr>Jobs := Jobs t\<rparr>)
       \<and> map Job (entries (Cron t2)) = map Job (entries (Cron t)) @ pre
       \<and> Jobs t1 = Jobs t @ pre"
proof -
  from assms(1) obtain u1 where
    l1: "AddJob_loop_prev env pre t = (None, u1)" and t1_eq: "t1 = u1\<lparr>Jobs := Jobs u1 @ pre\<rparr>"
    by (auto simp: AddJob_prev_ok_iff)
  from assms(2) have l2: "AddJob_loop_prev env [a] t1 = (Some e, t2)"
    by (simp only: AddJob_prev_error_iff)
  obtain r u2 where l3: "AddJob_loop_prev env [a] u1 = (r, u2)"
    by (cases "AddJob_loop_prev env [a] u1")
  have "AddJob_loop_prev env [a] t1 = (r, u2\<lparr>Jobs := Jobs u1 @ pre\<rparr>)"
    unfolding t1_eq by (subst AddJob_prev_step_Jobs) (simp only: l3 fst_conv snd_conv)
  with l2 have r: "r = Some e" and t2_eq: "t2 = u2\<lparr>Jobs := Jobs u1 @ pre\<rparr>"
    by (simp_all only: prod.inject)
  from AddJob_loop_prev_ok [OF l1] have u1: "map Job (entries (Cron u1)) = map Job (entries (Cron t)) @ pre"
    and ju1: "Jobs u1 = Jobs t" by simp_all
  from l3 r have l3': "AddJob_loop_prev env [a] u1 = (Some e, u2)" by (simp only:)
  from AddJob_prev_step_err [OF l3'] have cu2: "Cron u2 = Cron u1" and ju2: "Jobs u2 = Jobs u1"
    by (simp_all only:)
  have "AddJob_loop_prev env (pre @ a # post) t = (Some e, u2)"
    by (simp only: AddJob_loop_prev_append [of env pre] l1 AddJob_loop_prev_Cons [of env a post] l3'
          prod.case option.case)
  then have A: "AddJob_prev env (pre @ a # post) t = (Some e, u2)"
    by (simp only: AddJob_prev_error_iff)
  have "u2\<lparr>Jobs := Jobs u2\<rparr> = u2" by simp
  then have "u2\<lparr>Jobs := Jobs t\<rparr> = u2" by (simp only: ju2 ju1)
  then have B: "t2\<lparr>Jobs := Jobs t\<rparr> = u2" by (simp add: t2_eq)
  have C: "Cron t2 = Cron u1" by (simp add: t2_eq cu2)
  have D: "Jobs t1 = Jobs t @ pre" by (simp add: t1_eq ju1)
  show ?thesis by (simp only: A B C u1 D)
qed

lemma AddJob_invalid_prev:
  assumes "a \<in> set js"
    and "Schedule (heap t a) = [] \<or> Commands (heap t a) = []"
  shows "\<exists>e t' new. AddJob_loop_prev env js t = (Some e, t')
          \<and> Jobs t' = Jobs t
          \<and> entries (Cron t') = entries (Cron t) @ new \<and> a \<notin> Job ` set new"
  using assms
proof (induction js arbitrary: t)
  case Nil
  then show ?case by simp
next
  case (Cons b js)
  obtain x t1 where s: "AddJob_loop_prev env [b] t = (x, t1)"
    by (cases "AddJob_loop_prev env [b] t")
  show ?case
  proof (cases x)
    case (Some e)
    with s have err: "AddJob_loop_prev env [b] t = (Some e, t1)" by (simp only:)
    have f1: "AddJob_loop_prev env (b # js) t = (Some e, t1)"
      by (simp only: AddJob_loop_prev_Cons [of env b js] err prod.case option.case)
    have f2: "Jobs t1 = Jobs t"
      by (rule AddJob_prev_step_err(2) [OF err])
    have f3: "entries (Cron t1) = entries (Cron t) @ []"
      by (simp only: AddJob_prev_step_err(1) [OF err] append_Nil2)
    have f4: "a \<notin> Job ` set []" by simp
    show ?thesis
      by (rule exI [of _ e], rule exI [of _ t1], rule exI [of _ "[]"]) (intro conjI f1 f2 f3 f4)
  next
    case None
    with s have ok: "AddJob_loop_prev env [b] t = (None, t1)" by (simp only:)
    from AddJob_prev_step_ok(3,4) [OF ok] Cons.prems(2) have ne: "b \<noteq> a" by blast
    with Cons.prems(1) have in_js: "a \<in> set js" by simp
    have "Schedule (heap t1 a) = [] \<or> Commands (heap t1 a) = []"
      using Cons.prems(2) by (simp only: AddJob_prev_step_ok(5,6) [OF ok])
    from Cons.IH [OF in_js this] obtain e t' new where
      ih: "AddJob_loop_prev env js t1 = (Some e, t')" "Jobs t' = Jobs t1"
          "entries (Cron t') = entries (Cron t1) @ new" "a \<notin> Job ` set new"
      by blast
    define en where "en = \<lparr>ID = next' (Cron t) + 1, Spec = Schedule (heap t b),
           Chain = jobWrappers (RunningMode (heap t b)), Job = b\<rparr>"
    have f1: "AddJob_loop_prev env (b # js) t = (Some e, t')"
      by (simp only: AddJob_loop_prev_Cons [of env b js] ok ih(1) prod.case option.case)
    have f2: "Jobs t' = Jobs t"
      by (simp only: ih(2) AddJob_prev_step_ok(2) [OF ok])
    have f3: "entries (Cron t') = entries (Cron t) @ (en # new)"
      by (simp only: ih(3) AddJob_prev_step_ok(1) [OF ok] en_def append_assoc append_Cons append_Nil)
    have "Job en = b" by (simp add: en_def)
    with ih(4) ne have f4: "a \<notin> Job ` set (en # new)" by auto
    show ?thesis
      by (rule exI [of _ e], rule exI [of _ t'], rule exI [of _ "en # new"]) (intro conjI f1 f2 f3 f4)
  qed
qed

section \<open>Properties of Stop\<close>

subsection \<open>The drain loop and the deferred cleanup\<close>

lemma sleep_100s: "sint (100 * Second) = 100000000000"
  by (simp add: Second_def)

lemma fold_deleteShellFile:
  "heap (fold deleteShellFile js t) = heap t"
  "Jobs (fold deleteShellFile js t) = Jobs t"
  "wg (fold deleteShellFile js t) = wg t"
  "clock (fold deleteShellFile js t) = clock t"
  "Cron (fold deleteShellFile js t) = Cron t"
  "logs (fold deleteShellFile js t) = logs t"
  "files (fold deleteShellFile js t) p =
     (if p \<in> (\<lambda>a. shellFile (heap t a)) ` set js then None else files t p)"
  by (induction js arbitrary: t) (auto simp: deleteShellFile_def)

lemma stopImpl_loop_frame:
  assumes "stopImpl_loop env c t = Some t'"
  shows "heap t' = heap t \<and> Jobs t' = Jobs t \<and> files t' = files t \<and> wg t' = wg t
       \<and> Cron t' = Cron t \<and> clock t \<le> clock t'"
proof (rule stopImpl_loop.raw_induct
    [where P = "\<lambda>env c t t'. heap t' = heap t \<and> Jobs t' = Jobs t \<and> files t' = files t
       \<and> wg t' = wg t \<and> Cron t' = Cron t \<and> clock t \<le> clock t'", OF _ assms])
  fix f :: "job env \<Rightarrow> ctx \<Rightarrow> Task \<Rightarrow> Task option" and env c t t'
  assume ih: "\<And>env c t y. f env c t = Some y \<Longrightarrow>
      heap y = heap t \<and> Jobs y = Jobs t \<and> files y = files t \<and> wg y = wg t
       \<and> Cron y = Cron t \<and> clock t \<le> clock y"
    and body: "(if 0 < runningCount env (clock t)
      then case ctx_Err c (clock t) of
           None \<Rightarrow> f env c (t\<lparr>clock := clock t + sint (100 * Second)\<rparr>)
         | Some e \<Rightarrow>
             Some (if e = DeadlineExceeded
                   then t\<lparr>logs := logs t @ [Error [] ''cron jobs force quiting'']\<rparr>
                   else t)
      else Some t) = Some t'"
  show "heap t' = heap t \<and> Jobs t' = Jobs t \<and> files t' = files t \<and> wg t' = wg t
       \<and> Cron t' = Cron t \<and> clock t \<le> clock t'"
  proof (cases "runningCount env (clock t) > 0")
    case False
    with body show ?thesis by simp
  next
    case True
    show ?thesis
    proof (cases "ctx_Err c (clock t)")
      case (Some e)
      with True body show ?thesis by (auto split: if_splits)
    next
      case None
      with True body have "f env c (t\<lparr>clock := clock t + sint (100 * Second)\<rparr>) = Some t'"
        by simp
      from ih [OF this] show ?thesis by (simp add: sleep_100s)
    qed
  qed
qed

lemma stopImpl_loop_terminates:
  "\<exists>t'. stopImpl_loop env (Some (td, e)) t = Some t'"
proof (induction "nat (td - clock t)" arbitrary: t rule: less_induct)
  case less
  show ?case
  proof (cases "runningCount env (clock t) > 0 \<and> clock t < td")
    case False
    then show ?thesis
      by (subst stopImpl_loop.simps) (auto simp: ctx_Err_def)
  next
    case True
    let ?t = "t\<lparr>clock := clock t + sint (100 * Second)\<rparr>"
    from True have "nat (td - clock ?t) < nat (td - clock t)"
      by (simp add: sleep_100s)
    from less [OF this] obtain t' where "stopImpl_loop env (Some (td, e)) ?t = Some t'"
      by blast
    with True show ?thesis
      by (subst stopImpl_loop.simps) (simp add: ctx_Err_def)
  qed
qed

lemma WithTimeout_Some: "\<exists>td e. WithTimeout parent d now = Some (td, e)"
  by (auto simp: WithTimeout_def split: option.splits)

lemma stopImpl_returns:
  "\<exists>r t'. stopImpl env (Some (td, e)) t = Some (r, t')"
proof -
  from stopImpl_loop_terminates [of env td e "cancelQuitSignal t"] obtain t1 where
    "stopImpl_loop env (Some (td, e)) (cancelQuitSignal t) = Some t1" by blast
  then show ?thesis
    by (simp add: stopImpl_def Let_def)
qed

lemma Stop_returns: "\<exists>r t'. Stop env t = Some (r, t')"
proof -
  obtain sc c where s: "cron_Stop (cronIdle env) (clock t) (Cron t) = (sc, c)"
    by (cases "cron_Stop (cronIdle env) (clock t) (Cron t)")
  obtain td e where "WithTimeout sc (stoppingTimeout t * Millisecond) (clock t) = Some (td, e)"
    using WithTimeout_Some by blast
  moreover obtain td' e' where "WithTimeout Background (stoppingTimeout t * Millisecond) (clock t) = Some (td', e')"
    using WithTimeout_Some by blast
  ultimately show ?thesis
    using stopImpl_returns s
    by (simp add: Stop_def stopTest_def Let_def)
qed

lemma cancelQuitSignal_fields [simp]:
  "clock (cancelQuitSignal t) = clock t" "heap (cancelQuitSignal t) = heap t"
  "Jobs (cancelQuitSignal t) = Jobs t" "logs (cancelQuitSignal t) = logs t"
  "wg (cancelQuitSignal t) = wg t" "stoppingTimeout (cancelQuitSignal t) = stoppingTimeout t"
  "Cron (cancelQuitSignal t) = Cron t"
  by (simp_all add: cancelQuitSignal_def split: option.split)

lemma cancelQuitSignal_files [simp]:
  "files (cancelQuitSignal t) = files t"
  by (simp add: cancelQuitSignal_def split: option.split)

lemma stopImpl_effect:
  assumes "stopImpl env c t = Some (r, t')"
  shows "heap t' = heap t" and "Jobs t' = Jobs t" and "clock t \<le> clock t'"
    and "files t' p = (if p \<in> (\<lambda>a. shellFile (heap t a)) ` set (Jobs t) then None else files t p)"
proof -
  from assms obtain t1 where l: "stopImpl_loop env c (cancelQuitSignal t) = Some t1"
    and r: "(r, t') = wg_Add (- 1) (fold deleteShellFile (Jobs t1) (t1\<lparr>logs := logs t1 @ [Info ''all jobs quit'' []]\<rparr>))"
    by (auto simp: stopImpl_def Let_def split: option.splits)
  note f = stopImpl_loop_frame [OF l]
  from r have t': "t' = (fold deleteShellFile (Jobs t1) (t1\<lparr>logs := logs t1 @ [Info ''all jobs quit'' []]\<rparr>))\<lparr>wg := wg t1 - 1\<rparr>"
    by (auto simp: wg_Add_def fold_deleteShellFile split: if_splits)
  show "heap t' = heap t" using f by (simp add: t' fold_deleteShellFile)
  show "Jobs t' = Jobs t" using f by (simp add: t' fold_deleteShellFile)
  show "clock t \<le> clock t'" using f by (simp add: t' fold_deleteShellFile)
  show "files t' p = (if p \<in> (\<lambda>a. shellFile (heap t a)) ` set (Jobs t) then None else files t p)"
    using f by (simp add: t' fold_deleteShellFile)
qed

lemma Stop_effect:
  assumes "Stop env t = Some (r, t')"
  shows "heap t' = heap t" and "Jobs t' = Jobs t" and "clock t \<le> clock t'"
    and "files t' p = (if p \<in> (\<lambda>a. shellFile (heap t a)) ` set (Jobs t) then None else files t p)"
proof -
  obtain c t0 where s: "stopImpl env c t0 = Some (r, t')" and e: "heap t0 = heap t" "Jobs t0 = Jobs t"
    "clock t0 = clock t" "files t0 = files t"
    using assms
    by (cases "testMode t")
       (auto simp: Stop_def stopTest_def Let_def cron_Stop_def split: prod.splits)
  from stopImpl_effect [OF s] e
  show "heap t' = heap t" and "Jobs t' = Jobs t" and "clock t \<le> clock t'"
    and "files t' p = (if p \<in> (\<lambda>a. shellFile (heap t a)) ` set (Jobs t) then None else files t p)"
    by simp_all
qed

lemma Stop_deletes_files_of_Jobs:
  assumes "Stop env t = Some (r, t')" and "a \<in> set (Jobs t)"
  shows "files t' (shellFile (heap t' a)) = None"
  using Stop_effect(1,4) [OF assms(1)] assms(2) by simp

lemma stopImpl_loop_late:
  assumes "stopImpl_loop env c t = Some t'"
    and "runningCount env (clock t) > 0" and "ctx_Err c (clock t) = None"
  shows "clock t + 100000000000 \<le> clock t'"
proof -
  from assms have "stopImpl_loop env c (t\<lparr>clock := clock t + sint (100 * Second)\<rparr>) = Some t'"
    by (subst (asm) stopImpl_loop.simps) simp
  from stopImpl_loop_frame [OF this] show ?thesis by (simp add: sleep_100s)
qed

lemma stopImpl_loop_at_once:
  assumes "stopImpl_loop env c t = Some t'" and "runningCount env (clock t) \<le> 0"
  shows "t' = t"
  using assms by (subst (asm) stopImpl_loop.simps) simp

lemma Stop_late:
  assumes "Stop env t = Some (r, t')"
    and "runningCount env (clock t) > 0"
    and "0 < sint (stoppingTimeout t * Millisecond)"
    and "testMode t \<or> (\<forall>tc. cronIdle env = Some tc \<longrightarrow> clock t < tc)"
  shows "clock t + 100000000000 \<le> clock t'"
proof -
  obtain c t0 where s: "stopImpl env c t0 = Some (r, t')" and e: "clock t0 = clock t"
    and c: "ctx_Err c (clock t) = None"
    using assms
    by (cases "testMode t")
       (auto simp: Stop_def stopTest_def Let_def cron_Stop_def WithTimeout_def Background_def
          ctx_Err_def split: prod.splits option.splits)
  from s obtain t1 where l: "stopImpl_loop env c (cancelQuitSignal t0) = Some t1"
    and r: "(r, t') = wg_Add (- 1) (fold deleteShellFile (Jobs t1) (t1\<lparr>logs := logs t1 @ [Info ''all jobs quit'' []]\<rparr>))"
    by (auto simp: stopImpl_def Let_def split: option.splits)
  from r have "clock t' = clock t1"
    by (auto simp: wg_Add_def fold_deleteShellFile split: if_splits)
  moreover from stopImpl_loop_late [OF l] assms(2) c e have "clock t + 100000000000 \<le> clock t1"
    by simp
  ultimately show ?thesis by simp
qed

lemma Stop_at_once:
  assumes "Stop env t = Some (r, t')" and "runningCount env (clock t) \<le> 0"
  shows "clock t' = clock t"
proof -
  obtain c t0 where s: "stopImpl env c t0 = Some (r, t')" and e: "clock t0 = clock t"
    using assms
    by (cases "testMode t")
       (auto simp: Stop_def stopTest_def Let_def cron_Stop_def split: prod.splits)
  from s obtain t1 where l: "stopImpl_loop env c (cancelQuitSignal t0) = Some t1"
    and r: "(r, t') = wg_Add (- 1) (fold deleteShellFile (Jobs t1) (t1\<lparr>logs := logs t1 @ [Info ''all jobs quit'' []]\<rparr>))"
    by (auto simp: stopImpl_def Let_def split: option.splits)
  from r have "clock t' = clock t1"
    by (auto simp: wg_Add_def fold_deleteShellFile split: if_splits)
  moreover from stopImpl_loop_at_once [OF l] assms(2) e have "t1 = cancelQuitSignal t0" by simp
  ultimately show ?thesis using e by simp
qed

lemma Stop_loop_prev_clock: "clock t \<le> clock (Stop_loop_prev env deadline t)"
proof (induction env deadline t rule: Stop_loop_prev.induct)
  case (1 env deadline t)
  show ?case
  proof (cases "\<not> deadline \<le> clock t \<and> 0 < runningCount env (clock t)")
    case True
    with 1 have "clock t + 100000000000
        \<le> clock (Stop_loop_prev env deadline (t\<lparr>clock := clock t + sint (100 * Second)\<rparr>))"
      by (simp add: sleep_100s)
    with True show ?thesis
      by (subst Stop_loop_prev.simps) simp
  next
    case False
    then show ?thesis
      by (subst Stop_loop_prev.simps) auto
  qed
qed

lemma Stop_prev_late:
  assumes "runningCount env (clock t) > 0"
    and "0 < sint (stoppingTimeout t * Millisecond)"
  shows "clock t + 100000000000 \<le> clock (snd (Stop_prev env t))"
proof -
  let ?t2 = "cancelQuitSignal (t\<lparr>Cron := snd (cron_Stop (cronIdle env) (clock t) (Cron t))\<rparr>)"
  let ?d = "clock ?t2 + sint (stoppingTimeout ?t2 * Millisecond)"
  have c: "clock ?t2 = clock t" "stoppingTimeout ?t2 = stoppingTimeout t"
    by (simp_all add: cancelQuitSignal_def split: option.split)
  have "Stop_loop_prev env ?d ?t2 = Stop_loop_prev env ?d (?t2\<lparr>clock := clock ?t2 + sint (100 * Second)\<rparr>)"
    using assms by (subst Stop_loop_prev.simps) (simp add: c)
  with Stop_loop_prev_clock [of "?t2\<lparr>clock := clock ?t2 + sint (100 * Second)\<rparr>" env ?d]
  have "clock t + 100000000000 \<le> clock (Stop_loop_prev env ?d ?t2)"
    by (simp add: c sleep_100s)
  then show ?thesis
    by (simp add: Stop_prev_def Let_def wg_Add_def)
qed


lemma stopImpl_loop_forced:
  assumes "runningCount env (clock t) > 0" and "ctx_Err c (clock t) = None"
    and "runningCount env (clock t + 100000000000) > 0"
    and "ctx_Err c (clock t + 100000000000) = Some DeadlineExceeded"
  shows "stopImpl_loop env c t =
           Some (t\<lparr>clock := clock t + 100000000000,
                   logs := logs t @ [Error [] ''cron jobs force quiting'']\<rparr>)"
  using assms
  by (subst stopImpl_loop.simps, simp add: sleep_100s, subst stopImpl_loop.simps, simp)

lemma stopImpl_loop_drained:
  assumes "runningCount env (clock t) > 0" and "ctx_Err c (clock t) = None"
    and "runningCount env (clock t + 100000000000) \<le> 0"
  shows "stopImpl_loop env c t = Some (t\<lparr>clock := clock t + 100000000000\<rparr>)"
  using assms
  by (subst stopImpl_loop.simps, simp add: sleep_100s, subst stopImpl_loop.simps, simp)

lemma stopImpl_after_loop:
  assumes "stopImpl_loop env c (cancelQuitSignal t) = Some t1" and "0 < wg t1"
  shows "\<exists>t'. stopImpl env c t = Some (Return (), t') \<and> clock t' = clock t1
           \<and> logs t' = logs t1 @ [Info ''all jobs quit'' []]"
  using assms by (simp add: stopImpl_def Let_def wg_Add_def fold_deleteShellFile)

lemma Stop_forced_late:
  assumes "\<not> testMode t" and "cronIdle env = None"
    and "runningCount env (clock t) > 0" and "runningCount env (clock t + 100000000000) > 0"
    and "0 < sint (stoppingTimeout t * Millisecond)"
    and "sint (stoppingTimeout t * Millisecond) \<le> 100000000000"
    and "0 < wg t"
  shows "\<exists>t'. Stop env t = Some (Return (), t') \<and> clock t' = clock t + 100000000000
           \<and> logs t' = logs t @ [Error [] ''cron jobs force quiting'', Info ''all jobs quit'' []]"
proof -
  let ?t0 = "t\<lparr>Cron := (Cron t)\<lparr>running := False\<rparr>\<rparr>"
  let ?c = "Some (clock t + sint (stoppingTimeout t * Millisecond), DeadlineExceeded)"
  have s: "Stop env t = stopImpl env ?c ?t0"
    using assms(1,2) by (simp add: Stop_def cron_Stop_def WithTimeout_def Let_def)
  have "stopImpl_loop env ?c (cancelQuitSignal ?t0) =
          Some ((cancelQuitSignal ?t0)\<lparr>clock := clock (cancelQuitSignal ?t0) + 100000000000,
                   logs := logs (cancelQuitSignal ?t0) @ [Error [] ''cron jobs force quiting'']\<rparr>)"
    using assms(3-6) by (intro stopImpl_loop_forced) (simp_all add: ctx_Err_def)
  from stopImpl_after_loop [OF this] assms(7) show ?thesis
    by (simp add: s)
qed

lemma Stop_drained_late:
  assumes "\<not> testMode t"
    and "runningCount env (clock t) > 0" and "runningCount env (clock t + 100000000000) \<le> 0"
    and "0 < sint (stoppingTimeout t * Millisecond)"
    and "\<forall>tc. cronIdle env = Some tc \<longrightarrow> clock t < tc"
    and "0 < wg t"
  shows "\<exists>t'. Stop env t = Some (Return (), t') \<and> clock t' = clock t + 100000000000
           \<and> logs t' = logs t @ [Info ''all jobs quit'' []]"
proof -
  let ?t0 = "t\<lparr>Cron := (Cron t)\<lparr>running := False\<rparr>\<rparr>"
  obtain c where s: "Stop env t = stopImpl env c ?t0" and c: "ctx_Err c (clock t) = None"
    using assms(1,4,5)
    by (cases "cronIdle env")
       (auto simp: Stop_def cron_Stop_def WithTimeout_def Let_def ctx_Err_def)
  have "stopImpl_loop env c (cancelQuitSignal ?t0) =
          Some ((cancelQuitSignal ?t0)\<lparr>clock := clock (cancelQuitSignal ?t0) + 100000000000\<rparr>)"
    using assms(2,3) c by (intro stopImpl_loop_drained) simp_all
  from stopImpl_after_loop [OF this] assms(6) show ?thesis
    by (simp add: s)
qed

lemma Stop_loop_prev_forced:
  assumes "clock t < deadline" and "deadline \<le> clock t + 100000000000"
    and "runningCount env (clock t) > 0"
  shows "Stop_loop_prev env deadline t =
           t\<lparr>clock := clock t + 100000000000, logs := logs t @ [Error [] ''force quit'']\<rparr>"
proof -
  let ?u = "t\<lparr>clock := clock t + 100000000000\<rparr>"
  have 1: "Stop_loop_prev env deadline t = Stop_loop_prev env deadline ?u"
    using assms(1,3) by (subst Stop_loop_prev.simps) (simp add: sleep_100s)
  have 2: "Stop_loop_prev env deadline ?u = ?u\<lparr>logs := logs ?u @ [Error [] ''force quit'']\<rparr>"
    using assms(2) by (subst Stop_loop_prev.simps) simp
  show ?thesis unfolding 1 2 by simp
qed

lemma Stop_prev_forced_late:
  assumes "runningCount env (clock t) > 0"
    and "0 < sint (stoppingTimeout t * Millisecond)"
    and "sint (stoppingTimeout t * Millisecond) \<le> 100000000000"
    and "0 < wg t"
  shows "\<exists>t'. Stop_prev env t = (Return (), t') \<and> clock t' = clock t + 100000000000
           \<and> logs t' = logs t @ [Error [] ''force quit'']"
proof -
  define t2 where "t2 = cancelQuitSignal (t\<lparr>Cron := snd (cron_Stop (cronIdle env) (clock t) (Cron t))\<rparr>)"
  define d where "d = clock t2 + sint (stoppingTimeout t2 * Millisecond)"
  have f: "clock t2 = clock t" "stoppingTimeout t2 = stoppingTimeout t" "logs t2 = logs t" "wg t2 = wg t"
    by (simp_all add: t2_def)
  have s: "Stop_prev env t = wg_Add (- 1) (Stop_loop_prev env d t2)"
    by (simp only: Stop_prev_def Let_def t2_def d_def)
  have "Stop_loop_prev env d t2 =
          t2\<lparr>clock := clock t2 + 100000000000, logs := logs t2 @ [Error [] ''force quit'']\<rparr>"
    using assms(1-3) by (intro Stop_loop_prev_forced) (simp_all add: d_def f)
  then have "Stop_prev env t =
      (Return (), t2\<lparr>clock := clock t2 + 100000000000, logs := logs t2 @ [Error [] ''force quit''],
                     wg := wg t2 - 1\<rparr>)"
    using assms(4) by (simp add: s wg_Add_def f)
  then show ?thesis by (simp add: f)
qed

lemma stopImpl_Cron:
  assumes "stopImpl env c t = Some (r, t')"
  shows "Cron t' = Cron t" and "0 < wg t \<Longrightarrow> r = Return ()"
proof -
  from assms obtain t1 where l: "stopImpl_loop env c (cancelQuitSignal t) = Some t1"
    and r: "(r, t') = wg_Add (- 1) (fold deleteShellFile (Jobs t1) (t1\<lparr>logs := logs t1 @ [Info ''all jobs quit'' []]\<rparr>))"
    by (auto simp: stopImpl_def Let_def split: option.splits)
  note f = stopImpl_loop_frame [OF l]
  from r f show "Cron t' = Cron t"
    by (auto simp: wg_Add_def fold_deleteShellFile split: if_splits)
  from r f show "0 < wg t \<Longrightarrow> r = Return ()"
    by (auto simp: wg_Add_def fold_deleteShellFile split: if_splits)
qed

lemma Stop_entries:
  assumes "Stop env t = Some (r, t')"
  shows "entries (Cron t') = entries (Cron t)" and "0 < wg t \<Longrightarrow> r = Return ()"
proof -
  obtain c t0 where s: "stopImpl env c t0 = Some (r, t')" and e: "entries (Cron t0) = entries (Cron t)"
    "wg t0 = wg t"
    using assms
    by (cases "testMode t")
       (auto simp: Stop_def stopTest_def Let_def cron_Stop_def split: prod.splits)
  from stopImpl_Cron [OF s] e
  show "entries (Cron t') = entries (Cron t)" and "0 < wg t \<Longrightarrow> r = Return ()"
    by simp_all
qed

subsection \<open>The first error ends the batch\<close>

text \<open>
  C2.  \<open>AddJob\<close> returns the first validation or registration error encountered and does
  not register later jobs of the same batch, while jobs of the batch that were added before
  the failure remain registered (no rollback).  Stated for a batch \<open>pre @ a # post\<close> in which
  the jobs of \<open>pre\<close> register and \<open>a\<close>, tried after them, fails with \<open>e\<close>: the batch returns
  \<open>e\<close>; the state is the one reached by registering \<open>pre\<close> and then failing on \<open>a\<close>, whatever
  \<open>post\<close> is, except that \<open>Jobs\<close> is the one before the call; and the trigger table has gained
  the entries of \<open>pre\<close>, in order.  Both revisions of \<open>AddJob\<close>.
\<close>

theorem AddJob_first_error:
  "(AddJob env cf pre t = (Return None, t1) \<and> AddJob env cf [a] t1 = (Return (Some e), t2) \<longrightarrow>
      AddJob env cf (pre @ a # post) t = (Return (Some e), t2\<lparr>Jobs := Jobs t\<rparr>)
      \<and> map Job (entries (Cron t2)) = map Job (entries (Cron t)) @ pre
      \<and> Jobs t1 = Jobs t @ pre)
   \<and> (AddJob_prev envp prep tp = (None, tp1) \<and> AddJob_prev envp [ap] tp1 = (Some ep, tp2) \<longrightarrow>
      AddJob_prev envp (prep @ ap # postp) tp = (Some ep, tp2\<lparr>Jobs := Jobs tp\<rparr>)
      \<and> map Job (entries (Cron tp2)) = map Job (entries (Cron tp)) @ prep
      \<and> Jobs tp1 = Jobs tp @ prep)"
  using AddJob_first_error_cur [of env cf pre t t1 a e t2 post]
    AddJob_first_error_prev [of envp prep tp tp1 ap ep tp2 postp]
  by blast

theorem AddJob_first_error_witness:
  "AddJob env0 ''conf/a.yml'' [0, 1, 2] task0 =
     (Return (Some ''schedule required''),
      (snd (AddJob env0 ''conf/a.yml'' [1] (snd (AddJob env0 ''conf/a.yml'' [0] task0))))\<lparr>Jobs := []\<rparr>)
   \<and> map Job (entries (Cron (snd (AddJob env0 ''conf/a.yml'' [0, 1, 2] task0)))) = [0]
   \<and> Jobs (snd (AddJob env0 ''conf/a.yml'' [0] task0)) = [0]
   \<and> AddJob_prev env0_prev [0, 1, 2] task0_prev =
     (Some ''command of schedule: \"@every 1s\" required'',
      (snd (AddJob_prev env0_prev [1] (snd (AddJob_prev env0_prev [0] task0_prev))))\<lparr>Jobs := []\<rparr>)
   \<and> map Job (entries (Cron (snd (AddJob_prev env0_prev [0, 1, 2] task0_prev)))) = [0]"
proof -
  let ?t1 = "snd (AddJob env0 ''conf/a.yml'' [0] task0)"
  let ?t2 = "snd (AddJob env0 ''conf/a.yml'' [1] ?t1)"
  let ?p1 = "snd (AddJob_prev env0_prev [0] task0_prev)"
  let ?p2 = "snd (AddJob_prev env0_prev [1] ?p1)"
  have "fst (AddJob env0 ''conf/a.yml'' [0] task0) = Return None" by code_simp
  then have h1: "AddJob env0 ''conf/a.yml'' [0] task0 = (Return None, ?t1)"
    by (simp add: prod_eq_iff)
  have "fst (AddJob env0 ''conf/a.yml'' [1] ?t1) = Return (Some ''schedule required'')" by code_simp
  then have h2: "AddJob env0 ''conf/a.yml'' [1] ?t1 = (Return (Some ''schedule required''), ?t2)"
    by (simp add: prod_eq_iff)
  have "fst (AddJob_prev env0_prev [0] task0_prev) = None" by code_simp
  then have g1: "AddJob_prev env0_prev [0] task0_prev = (None, ?p1)"
    by (simp add: prod_eq_iff)
  have "fst (AddJob_prev env0_prev [1] ?p1) = Some ''command of schedule: \"@every 1s\" required''"
    by code_simp
  then have g2: "AddJob_prev env0_prev [1] ?p1 = (Some ''command of schedule: \"@every 1s\" required'', ?p2)"
    by (simp add: prod_eq_iff)
  have j0: "Jobs task0 = []" "entries (Cron task0) = []"
    by (simp_all add: task0_def NewTask_def cron_New_def)
  have k0: "Jobs task0_prev = []" "entries (Cron task0_prev) = []"
    by (simp_all add: task0_prev_def NewTask_prev_def cron_New_def)
  from AddJob_first_error [of env0 "''conf/a.yml''" "[0]" task0 ?t1 1 "''schedule required''" ?t2 "[2]"
      env0_prev "[0]" task0_prev ?p1 1 "''command of schedule: \"@every 1s\" required''" ?p2 "[2]"]
    h1 h2 g1 g2
  have r: "AddJob env0 ''conf/a.yml'' ([0] @ 1 # [2]) task0 =
            (Return (Some ''schedule required''), ?t2\<lparr>Jobs := Jobs task0\<rparr>)"
    "map Job (entries (Cron ?t2)) = map Job (entries (Cron task0)) @ [0]"
    "Jobs ?t1 = Jobs task0 @ [0]"
    "AddJob_prev env0_prev ([0] @ 1 # [2]) task0_prev =
            (Some ''command of schedule: \"@every 1s\" required'', ?p2\<lparr>Jobs := Jobs task0_prev\<rparr>)"
    "map Job (entries (Cron ?p2)) = map Job (entries (Cron task0_prev)) @ [0]"
    by blast+
  have e1: "AddJob env0 ''conf/a.yml'' [0, 1, 2] task0 = (Return (Some ''schedule required''), ?t2\<lparr>Jobs := []\<rparr>)"
    using r(1) by (simp only: j0 append_Cons append_Nil)
  have e2: "AddJob_prev env0_prev [0, 1, 2] task0_prev =
      (Some ''command of schedule: \"@every 1s\" required'', ?p2\<lparr>Jobs := []\<rparr>)"
    using r(4) by (simp only: k0 append_Cons append_Nil)
  have e3: "map Job (entries (Cron (snd (AddJob env0 ''conf/a.yml'' [0, 1, 2] task0)))) = [0]"
    using r(2) by (simp only: e1 snd_conv j0) simp
  have e4: "map Job (entries (Cron (snd (AddJob_prev env0_prev [0, 1, 2] task0_prev)))) = [0]"
    using r(5) by (simp only: e2 snd_conv k0) simp
  have e5: "Jobs ?t1 = [0]" using r(3) by (simp only: j0 append_Nil)
  show ?thesis
    by (intro conjI e1 e2 e3 e4 e5)
qed

subsection \<open>Jobs without schedule or command\<close>

text \<open>
  C3.  For every job specification with an empty schedule or an empty command list,
  \<open>AddJob\<close> fails with an error and that job is not registered: the call adds no entry for
  it to the trigger table of \<open>Cron\<close> (whose entries are all the trigger loop invokes) and
  leaves \<open>Jobs\<close> as it was.  The current revision tests \<open>j.Command == ""\<close>, the earlier one
  \<open>len(j.Commands) < 1\<close>.
\<close>

theorem AddJob_rejects_invalid:
  "(a \<in> set js \<and> (Schedule (heap t a) = [] \<or> Command (heap t a) = []) \<longrightarrow>
      (\<exists>e t' new. AddJob env cf js t = (Return (Some e), t')
         \<and> Jobs t' = Jobs t
         \<and> entries (Cron t') = entries (Cron t) @ new \<and> a \<notin> Job ` set new))
   \<and> (ap \<in> set jsp \<and> (Schedule (heap tp ap) = [] \<or> Commands (heap tp ap) = []) \<longrightarrow>
      (\<exists>e t' new. AddJob_prev envp jsp tp = (Some e, t')
         \<and> Jobs t' = Jobs tp
         \<and> entries (Cron t') = entries (Cron tp) @ new \<and> ap \<notin> Job ` set new))"
proof (intro conjI impI)
  assume "a \<in> set js \<and> (Schedule (heap t a) = [] \<or> Command (heap t a) = [])"
  then obtain e t' new where
    "AddJob_loop env cf js t = (Return (Some e), t')" "Jobs t' = Jobs t"
    "entries (Cron t') = entries (Cron t) @ new" "a \<notin> Job ` set new"
    using AddJob_invalid_cur [of a js t env cf] by blast
  then have "AddJob env cf js t = (Return (Some e), t') \<and> Jobs t' = Jobs t
         \<and> entries (Cron t') = entries (Cron t) @ new \<and> a \<notin> Job ` set new"
    by (simp only: AddJob_error_iff simp_thms)
  then show "\<exists>e t' new. AddJob env cf js t = (Return (Some e), t') \<and> Jobs t' = Jobs t
         \<and> entries (Cron t') = entries (Cron t) @ new \<and> a \<notin> Job ` set new"
    by (intro exI)
next
  assume "ap \<in> set jsp \<and> (Schedule (heap tp ap) = [] \<or> Commands (heap tp ap) = [])"
  then obtain e t' new where
    "AddJob_loop_prev envp jsp tp = (Some e, t')" "Jobs t' = Jobs tp"
    "entries (Cron t') = entries (Cron tp) @ new" "ap \<notin> Job ` set new"
    using AddJob_invalid_prev [of ap jsp tp envp] by blast
  then have "AddJob_prev envp jsp tp = (Some e, t') \<and> Jobs t' = Jobs tp
         \<and> entries (Cron t') = entries (Cron tp) @ new \<and> ap \<notin> Job ` set new"
    by (simp only: AddJob_prev_error_iff simp_thms)
  then show "\<exists>e t' new. AddJob_prev envp jsp tp = (Some e, t') \<and> Jobs t' = Jobs tp
         \<and> entries (Cron t') = entries (Cron tp) @ new \<and> ap \<notin> Job ` set new"
    by (intro exI)
qed

theorem AddJob_rejects_invalid_witness:
  "(1::nat) \<in> set [0, 1, 2] \<and> Schedule (heap task0 1) = []
   \<and> (\<exists>e t' new. AddJob env0 ''conf/a.yml'' [0, 1, 2] task0 = (Return (Some e), t')
         \<and> Jobs t' = Jobs task0
         \<and> entries (Cron t') = entries (Cron task0) @ new \<and> 1 \<notin> Job ` set new)
   \<and> Commands (heap task0_prev 1) = []
   \<and> (\<exists>e t' new. AddJob_prev env0_prev [0, 1, 2] task0_prev = (Some e, t')
         \<and> Jobs t' = Jobs task0_prev
         \<and> entries (Cron t') = entries (Cron task0_prev) @ new \<and> 1 \<notin> Job ` set new)"
proof -
  have h: "(1::nat) \<in> set [0, 1, 2]" "Schedule (heap task0 1) = []" "Commands (heap task0_prev 1) = []"
    by (simp_all add: task0_def NewTask_def heap0_def task0_prev_def NewTask_prev_def heap0_prev_def)
  from AddJob_rejects_invalid [of 1 "[0, 1, 2]" task0 env0 "''conf/a.yml''" 1 "[0, 1, 2]" task0_prev env0_prev] h
  show ?thesis by blast
qed

subsection \<open>A failing call leaves Jobs unchanged\<close>

text \<open>
  C8.  If \<open>AddJob\<close> returns an error, the \<open>Jobs\<close> field of the \<open>Task\<close> is left unchanged: no
  job of the failing call is appended, including the jobs \<open>pre\<close> earlier in the batch, which
  are in the trigger table by then and whose shell files have been written (where the path
  could be written).  So a job of \<open>pre\<close> that was not in \<open>Jobs\<close> before the call is not in it
  afterwards, and the cleanup of \<open>stopImpl\<close>, which iterates over \<open>Jobs\<close>, deletes the shell
  files of the jobs that were in \<open>Jobs\<close> before the call and no other file: the shell file of
  a job of \<open>pre\<close> is still there after the stop, unless a job of \<open>Jobs\<close> has the same path.
\<close>

theorem AddJob_error_keeps_Jobs:
  assumes "AddJob env cf js t = (Return (Some e), t')"
  shows "Jobs t' = Jobs t
       \<and> (\<exists>pre a post. js = pre @ a # post
            \<and> map Job (entries (Cron t')) = map Job (entries (Cron t)) @ pre
            \<and> (\<forall>b\<in>set pre. writable env (shellFile (heap t' b)) \<longrightarrow>
                  shellFile (heap t' b) \<in> dom (files t'))
            \<and> (\<forall>b\<in>set pre. b \<notin> set (Jobs t) \<longrightarrow> b \<notin> set (Jobs t'))
            \<and> (\<forall>env1 c r t''. stopImpl env1 c t' = Some (r, t'') \<longrightarrow>
                  (\<forall>p. files t'' p =
                         (if p \<in> (\<lambda>a. shellFile (heap t' a)) ` set (Jobs t) then None
                          else files t' p))
                  \<and> (\<forall>b\<in>set pre.
                         shellFile (heap t' b) \<notin> (\<lambda>a. shellFile (heap t' a)) ` set (Jobs t) \<longrightarrow>
                         files t'' (shellFile (heap t' b)) = files t' (shellFile (heap t' b)))))"
proof -
  from assms have l: "AddJob_loop env cf js t = (Return (Some e), t')"
    by (simp only: AddJob_error_iff)
  from AddJob_loop_error_decomp [OF l] obtain pre a post t1 where
    d: "js = pre @ a # post" "AddJob_loop env cf pre t = (Return None, t1)"
       "AddJob_loop env cf [a] t1 = (Return (Some e), t')"
    by blast
  from AddJob_loop_ok [OF d(2)] have o: "map Job (entries (Cron t1)) = map Job (entries (Cron t)) @ pre"
    "Jobs t1 = Jobs t" by simp_all
  note s = AddJob_step_err [OF d(3)]
  have j: "Jobs t' = Jobs t" by (simp only: s(2) o(2))
  have en: "map Job (entries (Cron t')) = map Job (entries (Cron t)) @ pre"
    by (simp only: s(1) o(1))
  have fl: "\<forall>b\<in>set pre. writable env (shellFile (heap t' b)) \<longrightarrow> shellFile (heap t' b) \<in> dom (files t')"
    using AddJob_loop_files [OF d(2)] by (simp only: s(3) s(4))
  have ab: "\<forall>b\<in>set pre. b \<notin> set (Jobs t) \<longrightarrow> b \<notin> set (Jobs t')"
    by (simp add: j)
  have st: "\<forall>env1 c r t''. stopImpl env1 c t' = Some (r, t'') \<longrightarrow>
                  (\<forall>p. files t'' p =
                         (if p \<in> (\<lambda>a. shellFile (heap t' a)) ` set (Jobs t) then None
                          else files t' p))
                  \<and> (\<forall>b\<in>set pre.
                         shellFile (heap t' b) \<notin> (\<lambda>a. shellFile (heap t' a)) ` set (Jobs t) \<longrightarrow>
                         files t'' (shellFile (heap t' b)) = files t' (shellFile (heap t' b)))"
  proof (intro allI impI)
    fix env1 c r t''
    assume h: "stopImpl env1 c t' = Some (r, t'')"
    have f: "files t'' p = (if p \<in> (\<lambda>a. shellFile (heap t' a)) ` set (Jobs t) then None else files t' p)"
      for p
      using stopImpl_effect(4) [OF h, of p] by (simp only: j)
    then show "(\<forall>p. files t'' p =
                         (if p \<in> (\<lambda>a. shellFile (heap t' a)) ` set (Jobs t) then None
                          else files t' p))
                  \<and> (\<forall>b\<in>set pre.
                         shellFile (heap t' b) \<notin> (\<lambda>a. shellFile (heap t' a)) ` set (Jobs t) \<longrightarrow>
                         files t'' (shellFile (heap t' b)) = files t' (shellFile (heap t' b)))"
      by simp
  qed
  from d(1) en fl ab st have "\<exists>pre a post. js = pre @ a # post
            \<and> map Job (entries (Cron t')) = map Job (entries (Cron t)) @ pre
            \<and> (\<forall>b\<in>set pre. writable env (shellFile (heap t' b)) \<longrightarrow>
                  shellFile (heap t' b) \<in> dom (files t'))
            \<and> (\<forall>b\<in>set pre. b \<notin> set (Jobs t) \<longrightarrow> b \<notin> set (Jobs t'))
            \<and> (\<forall>env1 c r t''. stopImpl env1 c t' = Some (r, t'') \<longrightarrow>
                  (\<forall>p. files t'' p =
                         (if p \<in> (\<lambda>a. shellFile (heap t' a)) ` set (Jobs t) then None
                          else files t' p))
                  \<and> (\<forall>b\<in>set pre.
                         shellFile (heap t' b) \<notin> (\<lambda>a. shellFile (heap t' a)) ` set (Jobs t) \<longrightarrow>
                         files t'' (shellFile (heap t' b)) = files t' (shellFile (heap t' b))))"
    by (intro exI conjI)
  with j show ?thesis by (intro conjI)
qed

theorem AddJob_error_keeps_Jobs_witness:
  "fst (AddJob env0 ''conf/a.yml'' [0, 1, 2] task0) = Return (Some ''schedule required'')
   \<and> Jobs (snd (AddJob env0 ''conf/a.yml'' [0, 1, 2] task0)) = Jobs task0
   \<and> Jobs task0 = []
   \<and> map Job (entries (Cron (snd (AddJob env0 ''conf/a.yml'' [0, 1, 2] task0)))) = [0]
   \<and> shellFile (heap (snd (AddJob env0 ''conf/a.yml'' [0, 1, 2] task0)) 0) = ''conf/.a.yml-1.sh''
   \<and> files (snd (AddJob env0 ''conf/a.yml'' [0, 1, 2] task0)) ''conf/.a.yml-1.sh'' = Some ''echo 1''
   \<and> (\<exists>r t''. stopImpl env0 (Some (3000000000, DeadlineExceeded))
                  (snd (AddJob env0 ''conf/a.yml'' [0, 1, 2] task0)) = Some (r, t'')
          \<and> files t'' ''conf/.a.yml-1.sh'' = Some ''echo 1'')"
proof -
  let ?t = "snd (AddJob env0 ''conf/a.yml'' [0, 1, 2] task0)"
  have f: "fst (AddJob env0 ''conf/a.yml'' [0, 1, 2] task0) = Return (Some ''schedule required'')"
    by code_simp
  then have h: "AddJob env0 ''conf/a.yml'' [0, 1, 2] task0 = (Return (Some ''schedule required''), ?t)"
    by (simp add: prod_eq_iff)
  note r = AddJob_error_keeps_Jobs [OF h]
  from r have j: "Jobs ?t = Jobs task0" by blast
  have j0: "Jobs task0 = []" by (simp add: task0_def NewTask_def)
  have e: "map Job (entries (Cron ?t)) = [0]" by code_simp
  have s: "shellFile (heap ?t 0) = ''conf/.a.yml-1.sh''" by code_simp
  have fl: "files ?t ''conf/.a.yml-1.sh'' = Some ''echo 1''" by code_simp
  obtain q t'' where st: "stopImpl env0 (Some (3000000000, DeadlineExceeded)) ?t = Some (q, t'')"
    using stopImpl_returns by blast
  from r obtain pre a post where
    "\<forall>env1 c r t''. stopImpl env1 c ?t = Some (r, t'') \<longrightarrow>
        (\<forall>p. files t'' p =
               (if p \<in> (\<lambda>a. shellFile (heap ?t a)) ` set (Jobs task0) then None else files ?t p))
        \<and> (\<forall>b\<in>set pre.
               shellFile (heap ?t b) \<notin> (\<lambda>a. shellFile (heap ?t a)) ` set (Jobs task0) \<longrightarrow>
               files t'' (shellFile (heap ?t b)) = files ?t (shellFile (heap ?t b)))"
    by blast
  with st have "files t'' ''conf/.a.yml-1.sh'' =
      (if ''conf/.a.yml-1.sh'' \<in> (\<lambda>a. shellFile (heap ?t a)) ` set (Jobs task0) then None
       else files ?t ''conf/.a.yml-1.sh'')"
    by blast
  then have "files t'' ''conf/.a.yml-1.sh'' = Some ''echo 1''"
    by (simp only: j0 fl list.set image_empty empty_iff if_False)
  with st have ex: "\<exists>r t''. stopImpl env0 (Some (3000000000, DeadlineExceeded)) ?t = Some (r, t'')
          \<and> files t'' ''conf/.a.yml-1.sh'' = Some ''echo 1''"
    by blast
  show ?thesis by (intro conjI f j j0 e s fl ex)
qed

section \<open>Properties of createCronJob\<close>

subsection \<open>The entry added to the trigger table\<close>

lemma createCronJob_entry:
  assumes "createCronJob env cf a t = (None, t')"
  shows "entries (Cron t') = entries (Cron t) @
           [\<lparr>ID = next' (Cron t) + 1, Spec = Schedule (heap t a),
             Chain = jobWrappers (RunningMode (heap t a)), Job = a\<rparr>]"
  using assms
  by (auto simp: createCronJob_def cron_AddJob_def Let_def saveShellFile_def
           split: option.splits if_splits)

lemma createCronJob_prev_entry:
  assumes "createCronJob_prev env a t = (None, t')"
  shows "entries (Cron t') = entries (Cron t) @
           [\<lparr>ID = next' (Cron t) + 1, Spec = Schedule (heap t a),
             Chain = jobWrappers (RunningMode (heap t a)), Job = a\<rparr>]"
  using assms
  by (auto simp: createCronJob_prev_def cron_AddJob_def Let_def split: option.splits if_splits)

lemma createCronJob_error_iff:
  "fst (createCronJob env cf a t) = None \<longleftrightarrow> parse env (Schedule (heap t a)) = None"
  by (simp add: createCronJob_def cron_AddJob_def Let_def split: option.split)

lemma createCronJob_prev_error_iff:
  "fst (createCronJob_prev env a t) = None \<longleftrightarrow> parse env (Schedule (heap t a)) = None"
  by (simp add: createCronJob_prev_def cron_AddJob_def Let_def split: option.split)

lemma invoke_Recover_returns: "fst (invoke (Recover # ws) busy body) = Return ()"
  by (cases "invoke ws busy body"; cases "fst (invoke ws busy body)") auto

lemma invoke_jobWrappers_returns: "fst (invoke (jobWrappers mode) busy body) = Return ()"
  unfolding jobWrappers_def append_Cons append_Nil by (rule invoke_Recover_returns)

lemma invoke_jobWrappers_panic:
  "invoke (jobWrappers mode) busy (Panic m) =
     (if mode = ''skip'' \<and> busy then (Return (), [Info ''skip'' []])
      else (Return (), [Error m ''panic'']))"
  by (simp add: jobWrappers_def)

lemma invoke_jobWrappers_finished:
  "invoke (jobWrappers mode) busy (Return ()) =
     (if mode = ''skip'' \<and> busy then (Return (), [Info ''skip'' []]) else (Return (), []))"
  by (simp add: jobWrappers_def)

subsection \<open>The overlap policy\<close>

text \<open>
  C4.  For every registered job, \<open>createCronJob\<close> applies the overlap policy selected by
  \<open>runningMode\<close>: \<open>skip\<close> wraps the job in skip-if-still-running, \<open>delay\<close> in
  delay-if-still-running, the empty string adds no serialization wrapper; and every job is
  wrapped in \<open>Recover\<close>, outermost, so that no trigger of the entry ends in a panic: a
  panic of the job's execution is captured and logged.  Both revisions.
\<close>

theorem createCronJob_overlap_policy:
  "(createCronJob env cf a t = (None, t') \<longrightarrow>
      (\<exists>en. entries (Cron t') = entries (Cron t) @ [en] \<and> Job en = a
         \<and> (RunningMode (heap t a) = ''skip'' \<longrightarrow> Chain en = [Recover, SkipIfStillRunning])
         \<and> (RunningMode (heap t a) = ''delay'' \<longrightarrow> Chain en = [Recover, DelayIfStillRunning])
         \<and> (RunningMode (heap t a) = [] \<longrightarrow> Chain en = [Recover])
         \<and> (\<forall>busy body. fst (invoke (Chain en) busy body) = Return ())
         \<and> (\<forall>busy m. \<not> (RunningMode (heap t a) = ''skip'' \<and> busy) \<longrightarrow>
               snd (invoke (Chain en) busy (Panic m)) = [Error m ''panic''])))
   \<and> (createCronJob_prev envp ap tp = (None, tp') \<longrightarrow>
      (\<exists>en. entries (Cron tp') = entries (Cron tp) @ [en] \<and> Job en = ap
         \<and> (RunningMode (heap tp ap) = ''skip'' \<longrightarrow> Chain en = [Recover, SkipIfStillRunning])
         \<and> (RunningMode (heap tp ap) = ''delay'' \<longrightarrow> Chain en = [Recover, DelayIfStillRunning])
         \<and> (RunningMode (heap tp ap) = [] \<longrightarrow> Chain en = [Recover])
         \<and> (\<forall>busy body. fst (invoke (Chain en) busy body) = Return ())
         \<and> (\<forall>busy m. \<not> (RunningMode (heap tp ap) = ''skip'' \<and> busy) \<longrightarrow>
               snd (invoke (Chain en) busy (Panic m)) = [Error m ''panic''])))"
proof -
  have w: "(mode = ''skip'' \<longrightarrow> Chain en = [Recover, SkipIfStillRunning])
         \<and> (mode = ''delay'' \<longrightarrow> Chain en = [Recover, DelayIfStillRunning])
         \<and> (mode = [] \<longrightarrow> Chain en = [Recover])
         \<and> (\<forall>busy body. fst (invoke (Chain en) busy body) = Return ())
         \<and> (\<forall>busy m. \<not> (mode = ''skip'' \<and> busy) \<longrightarrow>
               snd (invoke (Chain en) busy (Panic m)) = [Error m ''panic''])"
    if "Chain en = jobWrappers mode" for mode and en :: entry
    unfolding that
    by (simp add: invoke_jobWrappers_returns invoke_jobWrappers_panic) (simp add: jobWrappers_def)
  show ?thesis
  proof (intro conjI impI)
    assume h: "createCronJob env cf a t = (None, t')"
    let ?en = "\<lparr>ID = next' (Cron t) + 1, Spec = Schedule (heap t a),
             Chain = jobWrappers (RunningMode (heap t a)), Job = a\<rparr>"
    have "Chain ?en = jobWrappers (RunningMode (heap t a))" by simp
    from w [OF this] createCronJob_entry [OF h]
    show "\<exists>en. entries (Cron t') = entries (Cron t) @ [en] \<and> Job en = a
         \<and> (RunningMode (heap t a) = ''skip'' \<longrightarrow> Chain en = [Recover, SkipIfStillRunning])
         \<and> (RunningMode (heap t a) = ''delay'' \<longrightarrow> Chain en = [Recover, DelayIfStillRunning])
         \<and> (RunningMode (heap t a) = [] \<longrightarrow> Chain en = [Recover])
         \<and> (\<forall>busy body. fst (invoke (Chain en) busy body) = Return ())
         \<and> (\<forall>busy m. \<not> (RunningMode (heap t a) = ''skip'' \<and> busy) \<longrightarrow>
               snd (invoke (Chain en) busy (Panic m)) = [Error m ''panic''])"
      by (intro exI [of _ ?en] conjI) simp_all
  next
    assume h: "createCronJob_prev envp ap tp = (None, tp')"
    let ?en = "\<lparr>ID = next' (Cron tp) + 1, Spec = Schedule (heap tp ap),
             Chain = jobWrappers (RunningMode (heap tp ap)), Job = ap\<rparr>"
    have "Chain ?en = jobWrappers (RunningMode (heap tp ap))" by simp
    from w [OF this] createCronJob_prev_entry [OF h]
    show "\<exists>en. entries (Cron tp') = entries (Cron tp) @ [en] \<and> Job en = ap
         \<and> (RunningMode (heap tp ap) = ''skip'' \<longrightarrow> Chain en = [Recover, SkipIfStillRunning])
         \<and> (RunningMode (heap tp ap) = ''delay'' \<longrightarrow> Chain en = [Recover, DelayIfStillRunning])
         \<and> (RunningMode (heap tp ap) = [] \<longrightarrow> Chain en = [Recover])
         \<and> (\<forall>busy body. fst (invoke (Chain en) busy body) = Return ())
         \<and> (\<forall>busy m. \<not> (RunningMode (heap tp ap) = ''skip'' \<and> busy) \<longrightarrow>
               snd (invoke (Chain en) busy (Panic m)) = [Error m ''panic''])"
      by (intro exI [of _ ?en] conjI) simp_all
  qed
qed


theorem createCronJob_overlap_policy_witness:
  "(\<exists>en. entries (Cron (snd (createCronJob env0 ''conf/a.yml'' 0 task0))) = [en] \<and> Job en = 0
        \<and> Chain en = [Recover, SkipIfStillRunning]
        \<and> invoke (Chain en) False (Panic ''boom'') = (Return (), [Error ''boom'' ''panic'']))
   \<and> (\<exists>en. entries (Cron (snd (createCronJob env0 ''conf/a.yml'' 2 task0))) = [en] \<and> Job en = 2
        \<and> Chain en = [Recover, DelayIfStillRunning]
        \<and> invoke (Chain en) True (Panic ''boom'') = (Return (), [Error ''boom'' ''panic'']))
   \<and> (\<exists>en. entries (Cron (snd (createCronJob env0 ''conf/a.yml'' 3 task0))) = [en] \<and> Job en = 3
        \<and> Chain en = [Recover]
        \<and> invoke (Chain en) True (Panic ''boom'') = (Return (), [Error ''boom'' ''panic'']))
   \<and> (\<exists>en. entries (Cron (snd (createCronJob_prev env0_prev 2 task0_prev))) = [en] \<and> Job en = 2
        \<and> Chain en = [Recover, SkipIfStillRunning]
        \<and> invoke (Chain en) False (Panic ''boom'') = (Return (), [Error ''boom'' ''panic'']))"
proof -
  have e0: "entries (Cron task0) = []" "entries (Cron task0_prev) = []"
    by (simp_all add: task0_def NewTask_def task0_prev_def NewTask_prev_def cron_New_def)
  have m: "RunningMode (heap task0 0) = ''skip''" "RunningMode (heap task0 2) = ''delay''"
    "RunningMode (heap task0 3) = []" "RunningMode (heap task0_prev 2) = ''skip''"
    by (simp_all add: task0_def NewTask_def heap0_def task0_prev_def NewTask_prev_def heap0_prev_def)
  have inv: "invoke c b (Panic x) = (Return (), l)"
    if "fst (invoke c b (Panic x)) = Return ()" "snd (invoke c b (Panic x)) = l" for c b x l
    using that by (simp add: prod_eq_iff)
  have c: "createCronJob env0 ''conf/a.yml'' a task0 = (None, snd (createCronJob env0 ''conf/a.yml'' a task0))"
    if "a \<noteq> 1" for a
    using that
    by (simp add: prod_eq_iff createCronJob_error_iff env0_def task0_def NewTask_def heap0_def)
  have cp: "createCronJob_prev env0_prev 2 task0_prev = (None, snd (createCronJob_prev env0_prev 2 task0_prev))"
    by (simp add: prod_eq_iff createCronJob_prev_error_iff env0_prev_def task0_prev_def NewTask_prev_def
          heap0_prev_def)
  have c0: "createCronJob env0 ''conf/a.yml'' 0 task0 = (None, snd (createCronJob env0 ''conf/a.yml'' 0 task0))"
    and c2: "createCronJob env0 ''conf/a.yml'' 2 task0 = (None, snd (createCronJob env0 ''conf/a.yml'' 2 task0))"
    and c3: "createCronJob env0 ''conf/a.yml'' 3 task0 = (None, snd (createCronJob env0 ''conf/a.yml'' 3 task0))"
    by (rule c, simp)+
  from createCronJob_overlap_policy [of env0 "''conf/a.yml''" 0 task0
      "snd (createCronJob env0 ''conf/a.yml'' 0 task0)" env0_prev 2 task0_prev
      "snd (createCronJob_prev env0_prev 2 task0_prev)"] c0 cp
  obtain en0 enp where
    r0: "entries (Cron (snd (createCronJob env0 ''conf/a.yml'' 0 task0))) = entries (Cron task0) @ [en0]"
      "Job en0 = 0" "RunningMode (heap task0 0) = ''skip'' \<longrightarrow> Chain en0 = [Recover, SkipIfStillRunning]"
      "\<forall>busy body. fst (invoke (Chain en0) busy body) = Return ()"
      "\<forall>busy m. \<not> (RunningMode (heap task0 0) = ''skip'' \<and> busy) \<longrightarrow>
               snd (invoke (Chain en0) busy (Panic m)) = [Error m ''panic'']"
    and rp: "entries (Cron (snd (createCronJob_prev env0_prev 2 task0_prev))) = entries (Cron task0_prev) @ [enp]"
      "Job enp = 2" "RunningMode (heap task0_prev 2) = ''skip'' \<longrightarrow> Chain enp = [Recover, SkipIfStillRunning]"
      "\<forall>busy body. fst (invoke (Chain enp) busy body) = Return ()"
      "\<forall>busy m. \<not> (RunningMode (heap task0_prev 2) = ''skip'' \<and> busy) \<longrightarrow>
               snd (invoke (Chain enp) busy (Panic m)) = [Error m ''panic'']"
    by blast
  from createCronJob_overlap_policy [of env0 "''conf/a.yml''" 2 task0
      "snd (createCronJob env0 ''conf/a.yml'' 2 task0)" env0_prev 2 task0_prev
      "snd (createCronJob_prev env0_prev 2 task0_prev)"] c2
  obtain en2 where
    r2: "entries (Cron (snd (createCronJob env0 ''conf/a.yml'' 2 task0))) = entries (Cron task0) @ [en2]"
      "Job en2 = 2" "RunningMode (heap task0 2) = ''delay'' \<longrightarrow> Chain en2 = [Recover, DelayIfStillRunning]"
      "\<forall>busy body. fst (invoke (Chain en2) busy body) = Return ()"
      "\<forall>busy m. \<not> (RunningMode (heap task0 2) = ''skip'' \<and> busy) \<longrightarrow>
               snd (invoke (Chain en2) busy (Panic m)) = [Error m ''panic'']"
    by blast
  from createCronJob_overlap_policy [of env0 "''conf/a.yml''" 3 task0
      "snd (createCronJob env0 ''conf/a.yml'' 3 task0)" env0_prev 2 task0_prev
      "snd (createCronJob_prev env0_prev 2 task0_prev)"] c3
  obtain en3 where
    r3: "entries (Cron (snd (createCronJob env0 ''conf/a.yml'' 3 task0))) = entries (Cron task0) @ [en3]"
      "Job en3 = 3" "RunningMode (heap task0 3) = [] \<longrightarrow> Chain en3 = [Recover]"
      "\<forall>busy body. fst (invoke (Chain en3) busy body) = Return ()"
      "\<forall>busy m. \<not> (RunningMode (heap task0 3) = ''skip'' \<and> busy) \<longrightarrow>
               snd (invoke (Chain en3) busy (Panic m)) = [Error m ''panic'']"
    by blast
  have "\<exists>en. entries (Cron (snd (createCronJob env0 ''conf/a.yml'' 0 task0))) = [en] \<and> Job en = 0
        \<and> Chain en = [Recover, SkipIfStillRunning]
        \<and> invoke (Chain en) False (Panic ''boom'') = (Return (), [Error ''boom'' ''panic''])"
    using r0 m(1) e0(1) by (intro exI [of _ en0] conjI inv) simp_all
  moreover have "\<exists>en. entries (Cron (snd (createCronJob env0 ''conf/a.yml'' 2 task0))) = [en] \<and> Job en = 2
        \<and> Chain en = [Recover, DelayIfStillRunning]
        \<and> invoke (Chain en) True (Panic ''boom'') = (Return (), [Error ''boom'' ''panic''])"
    using r2 m(2) e0(1) by (intro exI [of _ en2] conjI inv) simp_all
  moreover have "\<exists>en. entries (Cron (snd (createCronJob env0 ''conf/a.yml'' 3 task0))) = [en] \<and> Job en = 3
        \<and> Chain en = [Recover]
        \<and> invoke (Chain en) True (Panic ''boom'') = (Return (), [Error ''boom'' ''panic''])"
    using r3 m(3) e0(1) by (intro exI [of _ en3] conjI inv) simp_all
  moreover have "\<exists>en. entries (Cron (snd (createCronJob_prev env0_prev 2 task0_prev))) = [en] \<and> Job en = 2
        \<and> Chain en = [Recover, SkipIfStillRunning]
        \<and> invoke (Chain en) False (Panic ''boom'') = (Return (), [Error ''boom'' ''panic''])"
    using rp m(4) e0(2) by (intro exI [of _ enp] conjI inv) simp_all
  ultimately show ?thesis by (intro conjI)
qed

subsection \<open>Running modes that are neither skip nor delay\<close>

text \<open>
  C9.  For every job whose \<open>RunningMode\<close> is any string other than \<open>skip\<close> or \<open>delay\<close> (a
  misspelling such as \<open>Skip\<close> or \<open>delayed\<close>), \<open>createCronJob\<close> silently applies
  allow-concurrent behaviour: the chain of the entry is \<open>Recover\<close> alone, nothing is logged,
  and an error is returned only when the parser rejects the schedule.  Both revisions.
\<close>

theorem createCronJob_unknown_mode:
  "(RunningMode (heap t a) \<noteq> ''skip'' \<and> RunningMode (heap t a) \<noteq> ''delay'' \<longrightarrow>
      (fst (createCronJob env cf a t) = None \<longleftrightarrow> parse env (Schedule (heap t a)) = None)
      \<and> logs (snd (createCronJob env cf a t)) = logs t
      \<and> (\<forall>t'. createCronJob env cf a t = (None, t') \<longrightarrow>
            (\<exists>en. entries (Cron t') = entries (Cron t) @ [en] \<and> Job en = a \<and> Chain en = [Recover])))
   \<and> (RunningMode (heap tp ap) \<noteq> ''skip'' \<and> RunningMode (heap tp ap) \<noteq> ''delay'' \<longrightarrow>
      (fst (createCronJob_prev envp ap tp) = None \<longleftrightarrow> parse envp (Schedule (heap tp ap)) = None)
      \<and> logs (snd (createCronJob_prev envp ap tp)) = logs tp
      \<and> (\<forall>t'. createCronJob_prev envp ap tp = (None, t') \<longrightarrow>
            (\<exists>en. entries (Cron t') = entries (Cron tp) @ [en] \<and> Job en = ap \<and> Chain en = [Recover])))"
proof -
  have l: "logs (snd (createCronJob env cf a t)) = logs t"
    by (simp add: createCronJob_def cron_AddJob_def Let_def saveShellFile_def split: option.split)
  have lp: "logs (snd (createCronJob_prev envp ap tp)) = logs tp"
    by (simp add: createCronJob_prev_def cron_AddJob_def Let_def split: option.split)
  have w: "jobWrappers mode = [Recover]" if "mode \<noteq> ''skip''" "mode \<noteq> ''delay''" for mode
    using that by (simp add: jobWrappers_def)
  show ?thesis
  proof (intro conjI impI allI)
    show "(fst (createCronJob env cf a t) = None) = (parse env (Schedule (heap t a)) = None)"
      by (rule createCronJob_error_iff)
    show "(fst (createCronJob_prev envp ap tp) = None) = (parse envp (Schedule (heap tp ap)) = None)"
      by (rule createCronJob_prev_error_iff)
    show "logs (snd (createCronJob env cf a t)) = logs t" by (rule l)
    show "logs (snd (createCronJob_prev envp ap tp)) = logs tp" by (rule lp)
  next
    fix t'
    assume m: "RunningMode (heap t a) \<noteq> ''skip'' \<and> RunningMode (heap t a) \<noteq> ''delay''"
      and c: "createCronJob env cf a t = (None, t')"
    from m have "jobWrappers (RunningMode (heap t a)) = [Recover]" by (simp add: w)
    with createCronJob_entry [OF c]
    show "\<exists>en. entries (Cron t') = entries (Cron t) @ [en] \<and> Job en = a \<and> Chain en = [Recover]"
      by simp
  next
    fix t'
    assume m: "RunningMode (heap tp ap) \<noteq> ''skip'' \<and> RunningMode (heap tp ap) \<noteq> ''delay''"
      and c: "createCronJob_prev envp ap tp = (None, t')"
    from m have "jobWrappers (RunningMode (heap tp ap)) = [Recover]" by (simp add: w)
    with createCronJob_prev_entry [OF c]
    show "\<exists>en. entries (Cron t') = entries (Cron tp) @ [en] \<and> Job en = ap \<and> Chain en = [Recover]"
      by simp
  qed
qed

theorem createCronJob_unknown_mode_witness:
  "RunningMode (heap task0 4) = ''Skip''
   \<and> fst (createCronJob env0 ''conf/a.yml'' 4 task0) = None
   \<and> logs (snd (createCronJob env0 ''conf/a.yml'' 4 task0)) = []
   \<and> (\<exists>en. entries (Cron (snd (createCronJob env0 ''conf/a.yml'' 4 task0))) = [en] \<and> Job en = 4
         \<and> Chain en = [Recover])
   \<and> RunningMode (heap task0_prev 4) = ''delayed''
   \<and> fst (createCronJob_prev env0_prev 4 task0_prev) = None
   \<and> (\<exists>en. entries (Cron (snd (createCronJob_prev env0_prev 4 task0_prev))) = [en] \<and> Job en = 4
         \<and> Chain en = [Recover])"
proof -
  have m: "RunningMode (heap task0 4) = ''Skip''" "RunningMode (heap task0_prev 4) = ''delayed''"
    "parse env0 (Schedule (heap task0 4)) = None" "parse env0_prev (Schedule (heap task0_prev 4)) = None"
    "entries (Cron task0) = []" "entries (Cron task0_prev) = []" "logs task0 = []"
    by (simp_all add: task0_def NewTask_def heap0_def task0_prev_def NewTask_prev_def heap0_prev_def
          env0_def env0_prev_def cron_New_def)
  have n: "RunningMode (heap task0 4) \<noteq> ''skip'' \<and> RunningMode (heap task0 4) \<noteq> ''delay''"
    "RunningMode (heap task0_prev 4) \<noteq> ''skip'' \<and> RunningMode (heap task0_prev 4) \<noteq> ''delay''"
    by (simp_all add: m)
  note r = createCronJob_unknown_mode [of task0 4 env0 "''conf/a.yml''" task0_prev 4 env0_prev]
  from r n m(3,4) have f: "fst (createCronJob env0 ''conf/a.yml'' 4 task0) = None"
    "fst (createCronJob_prev env0_prev 4 task0_prev) = None"
    "logs (snd (createCronJob env0 ''conf/a.yml'' 4 task0)) = logs task0"
    by blast+
  then have c: "createCronJob env0 ''conf/a.yml'' 4 task0 = (None, snd (createCronJob env0 ''conf/a.yml'' 4 task0))"
    "createCronJob_prev env0_prev 4 task0_prev = (None, snd (createCronJob_prev env0_prev 4 task0_prev))"
    by (simp_all add: prod_eq_iff)
  from r n c have "\<exists>en. entries (Cron (snd (createCronJob env0 ''conf/a.yml'' 4 task0))) = entries (Cron task0) @ [en]
      \<and> Job en = 4 \<and> Chain en = [Recover]"
    "\<exists>en. entries (Cron (snd (createCronJob_prev env0_prev 4 task0_prev))) = entries (Cron task0_prev) @ [en]
      \<and> Job en = 4 \<and> Chain en = [Recover]"
    by blast+
  with f m show ?thesis by simp
qed

subsection \<open>Stop and the deadline\<close>

text \<open>
  C1.  Claimed: for every invocation of \<open>Stop\<close>, \<open>Stop\<close> returns no later than the configured
  stopping deadline after invocation, however long the executions in flight run, and on
  expiry of the deadline it logs a forced-quit event and returns without waiting further.
  The loop sleeps \<open>100 * time.Second\<close> between two looks at the counter and the context.  On
  a started task with the timeout of 3000 ms of \<open>NewTask\<close> and one execution in flight that
  never ends, \<open>Stop\<close> returns 100 s after it was called, 97 s after the deadline, and writes
  the forced-quit record only then.  Both revisions.
\<close>

theorem Stop_overruns_deadline:
  "sint (stoppingTimeout task_started * Millisecond) = 3000000000
   \<and> runningCount (env_running None) (clock task_started) = 1
   \<and> (\<exists>t'. Stop (env_running None) task_started = Some (Return (), t')
          \<and> clock t' = clock task_started + 100000000000
          \<and> logs t' = logs task_started @ [Error [] ''cron jobs force quiting'', Info ''all jobs quit'' []])
   \<and> sint (stoppingTimeout task_started_prev * Millisecond) = 3000000000
   \<and> runningCount (env_running_prev None) (clock task_started_prev) = 1
   \<and> (\<exists>t'. Stop_prev (env_running_prev None) task_started_prev = (Return (), t')
          \<and> clock t' = clock task_started_prev + 100000000000
          \<and> logs t' = logs task_started_prev @ [Error [] ''force quit''])"
proof -
  have t: "\<not> testMode task_started" "stoppingTimeout task_started = 3000" "wg task_started = 1"
    by code_simp+
  have tp: "stoppingTimeout task_started_prev = 3000" "wg task_started_prev = 1"
    by code_simp+
  have d: "sint (stoppingTimeout task_started * Millisecond) = 3000000000"
    "sint (stoppingTimeout task_started_prev * Millisecond) = 3000000000"
    "sint (3000 * Millisecond) = 3000000000"
    by (simp_all add: t tp Millisecond_def)
  have e: "cronIdle (env_running None) = None" "runningCount (env_running None) x = 1"
    "runningCount (env_running_prev None) x = 1" for x
    by (simp_all add: env_running_def env_running_prev_def)
  have "\<exists>t'. Stop (env_running None) task_started = Some (Return (), t')
          \<and> clock t' = clock task_started + 100000000000
          \<and> logs t' = logs task_started @ [Error [] ''cron jobs force quiting'', Info ''all jobs quit'' []]"
    by (rule Stop_forced_late) (simp_all add: t d e)
  moreover have "\<exists>t'. Stop_prev (env_running_prev None) task_started_prev = (Return (), t')
          \<and> clock t' = clock task_started_prev + 100000000000
          \<and> logs t' = logs task_started_prev @ [Error [] ''force quit'']"
    by (rule Stop_prev_forced_late) (simp_all add: tp d e)
  ultimately show ?thesis using d(1,2) e by (intro conjI)
qed

subsection \<open>Stop when the executions end before the deadline\<close>

text \<open>
  C5.  Claimed: if all executions in flight finish before the deadline, \<open>Stop\<close> returns as
  soon as the counter reaches zero, without waiting out the rest of the deadline.  With one
  execution in flight that ends 50 ms after \<open>Stop\<close> is called and a deadline of 3000 ms, the
  counter is zero from 50 ms on, and \<open>Stop\<close> returns 100 s after it was called: the loop is
  asleep for \<open>100 * time.Second\<close> when the counter reaches zero.  The earlier revision logs
  \<open>force quit\<close> on top of that, since it looks at the deadline before it looks at the counter.
\<close>

theorem Stop_waits_after_drain:
  "sint (stoppingTimeout task_started * Millisecond) = 3000000000
   \<and> runningCount (env_running (Some 50000000)) (clock task_started) = 1
   \<and> runningCount (env_running (Some 50000000)) (clock task_started + 50000000) = 0
   \<and> (\<exists>t'. Stop (env_running (Some 50000000)) task_started = Some (Return (), t')
          \<and> clock t' = clock task_started + 100000000000
          \<and> logs t' = logs task_started @ [Info ''all jobs quit'' []])
   \<and> sint (stoppingTimeout task_started_prev * Millisecond) = 3000000000
   \<and> runningCount (env_running_prev (Some 50000000)) (clock task_started_prev) = 1
   \<and> runningCount (env_running_prev (Some 50000000)) (clock task_started_prev + 50000000) = 0
   \<and> (\<exists>t'. Stop_prev (env_running_prev (Some 50000000)) task_started_prev = (Return (), t')
          \<and> clock t' = clock task_started_prev + 100000000000
          \<and> logs t' = logs task_started_prev @ [Error [] ''force quit''])"
proof -
  have t: "\<not> testMode task_started" "stoppingTimeout task_started = 3000" "wg task_started = 1"
    "clock task_started = 0"
    by code_simp+
  have tp: "stoppingTimeout task_started_prev = 3000" "wg task_started_prev = 1"
    "clock task_started_prev = 0"
    by code_simp+
  have d: "sint (stoppingTimeout task_started * Millisecond) = 3000000000"
    "sint (stoppingTimeout task_started_prev * Millisecond) = 3000000000"
    "sint (3000 * Millisecond) = 3000000000"
    by (simp_all add: t tp Millisecond_def)
  have e: "cronIdle (env_running (Some 50000000)) = Some 50000000"
    "runningCount (env_running (Some 50000000)) x = (if x < 50000000 then 1 else 0)"
    "runningCount (env_running_prev (Some 50000000)) x = (if x < 50000000 then 1 else 0)" for x
    by (simp_all add: env_running_def env_running_prev_def)
  have "\<exists>t'. Stop (env_running (Some 50000000)) task_started = Some (Return (), t')
          \<and> clock t' = clock task_started + 100000000000
          \<and> logs t' = logs task_started @ [Info ''all jobs quit'' []]"
    by (rule Stop_drained_late) (simp_all add: t d e)
  moreover have "\<exists>t'. Stop_prev (env_running_prev (Some 50000000)) task_started_prev = (Return (), t')
          \<and> clock t' = clock task_started_prev + 100000000000
          \<and> logs t' = logs task_started_prev @ [Error [] ''force quit'']"
    by (rule Stop_prev_forced_late) (simp_all add: tp d e)
  moreover have "runningCount (env_running (Some 50000000)) (clock task_started) = 1"
    "runningCount (env_running (Some 50000000)) (clock task_started + 50000000) = 0"
    "runningCount (env_running_prev (Some 50000000)) (clock task_started_prev) = 1"
    "runningCount (env_running_prev (Some 50000000)) (clock task_started_prev + 50000000) = 0"
    by (simp_all add: e t tp)
  ultimately show ?thesis using d(1,2) by (intro conjI)
qed

subsection \<open>Shell files left behind by Stop\<close>

text \<open>
  C6.  Claimed: after \<open>Stop\<close> completes, the shell file of every registered job has been
  removed.  \<open>stopImpl\<close> deletes the shell files of the jobs in \<open>Jobs\<close>
  (\<open>Stop_deletes_files_of_Jobs\<close>).  A job that \<open>AddJob\<close> registered in a batch that failed
  later is in the trigger table and has its shell file, but is not in \<open>Jobs\<close>: for the batch
  \<open>[0, 1, 2]\<close>, whose second job has no schedule, the first job is in the trigger table
  before and after \<open>Stop\<close>, and its shell file is still there when \<open>Stop\<close> has returned.
\<close>

theorem Stop_leaves_shell_file:
  "fst (AddJob env0 ''conf/a.yml'' [0, 1, 2] task0) = Return (Some ''schedule required'')
   \<and> map Job (entries (Cron task_partial)) = [0]
   \<and> Jobs task_partial = []
   \<and> shellFile (heap task_partial 0) = ''conf/.a.yml-1.sh''
   \<and> files task_partial ''conf/.a.yml-1.sh'' = Some ''echo 1''
   \<and> (\<exists>t'. Stop env0 task_partial = Some (Return (), t')
          \<and> map Job (entries (Cron t')) = [0]
          \<and> files t' ''conf/.a.yml-1.sh'' = Some ''echo 1'')"
proof -
  have f: "fst (AddJob env0 ''conf/a.yml'' [0, 1, 2] task0) = Return (Some ''schedule required'')"
    by code_simp
  have t: "map Job (entries (Cron task_partial)) = [0]" "Jobs task_partial = []"
    "shellFile (heap task_partial 0) = ''conf/.a.yml-1.sh''"
    "files task_partial ''conf/.a.yml-1.sh'' = Some ''echo 1''" "wg task_partial = 1"
    by code_simp+
  obtain r t' where s: "Stop env0 task_partial = Some (r, t')"
    using Stop_returns by blast
  from Stop_entries [OF s] t(5) have r: "r = Return ()" and en: "entries (Cron t') = entries (Cron task_partial)"
    by simp_all
  from Stop_effect(4) [OF s, of "''conf/.a.yml-1.sh''"]
  have fl: "files t' ''conf/.a.yml-1.sh'' = Some ''echo 1''"
    by (simp only: t list.set image_empty empty_iff if_False)
  from s r en fl t(1) have "\<exists>t'. Stop env0 task_partial = Some (Return (), t')
          \<and> map Job (entries (Cron t')) = [0]
          \<and> files t' ''conf/.a.yml-1.sh'' = Some ''echo 1''"
    by auto
  with f t(1-4) show ?thesis by (intro conjI)
qed

end
